theory Spec2Isabelle
  imports Main "HOL-Library.Word" "HOL-Library.Sublist"
begin

unbundle bit_operations_syntax

section \<open>Data model of coroutine.c\<close>

subsection \<open>Pointers, the two parties, and what user code may call\<close>

text \<open>
  A \<^verbatim>\<open>void *\<close> travelling through the channel is either \<^verbatim>\<open>NULL\<close>, the address of the
  private static \<^verbatim>\<open>not_filled\<close> (the sentinel), or some other address.
\<close>

datatype ptr = NULL | not_filled | Addr nat

datatype party = Parent | Child

fun peer :: "party \<Rightarrow> party" where
  "peer Parent = Child"
| "peer Child = Parent"

text \<open>
  User code is a state machine over control states \<open>'s\<close>: in state \<open>s\<close> the next thing the
  running function does with the channel is \<open>code s\<close>. The argument of a call is what the
  C call gets, the last component is the control state in which the caller goes on when the
  call has returned (for \<^verbatim>\<open>from\<close>, depending on the pointer returned).
\<close>

datatype 's call =
    Yield_to ptr 's
  | From "ptr \<Rightarrow> 's"
  | Coroutine_switch 's
  | Close_and_join 's
  | Return

text \<open>
  What \<^verbatim>\<open>context_inactive\<close> holds: the place (program counter and stack) at which a
  suspended coroutine goes on. Every \<^verbatim>\<open>SWAP_CONTEXT\<close> of the source is one such place:
  the one in \<^verbatim>\<open>yield_to\<close> and \<^verbatim>\<open>coroutine_switch\<close> is followed by the return to the
  caller (\<open>User\<close>, or the loop of \<^verbatim>\<open>close_and_join\<close>), the one in \<^verbatim>\<open>from\<close> by the rest
  of \<^verbatim>\<open>from\<close>, the one in \<^verbatim>\<open>springboard\<close> by \<^verbatim>\<open>__builtin_unreachable()\<close>.
  \<open>Zeroed\<close> is the buffer of the compound literal before \<^verbatim>\<open>BOOTSTRAP_CONTEXT\<close> fills it.
\<close>

datatype 's frame =
    User 's
  | In_from "ptr \<Rightarrow> 's"
  | In_close_and_join 's
  | In_springboard
  | Zeroed

datatype release_fn = libc_free

subsection \<open>struct channel\<close>

text \<open>The field \<^verbatim>\<open>value\<close> is \<open>val\<close> here.\<close>

record 's channel =
  context_inactive :: "'s frame"
  func :: "(ptr \<Rightarrow> 's) option"
  val :: ptr
  free_after :: ptr
  free_func :: "release_fn option"

subsection \<open>The machine: one channel, the running coroutine, and what has been observed\<close>

datatype event =
    Entered ptr
  | Yielded party ptr
  | Swapped party
  | Got party ptr
  | Finished
  | Released ptr

record 's machine =
  channel :: "'s channel"
  running :: "'s frame"
  active :: party
  trace :: "event list"

text \<open>
  How a run ends: the parent's own function returns (the channel is not touched any more);
  the record is read after the release function got its block; control reaches
  \<^verbatim>\<open>__builtin_unreachable()\<close> behind the last swap of the springboard; a context that was
  never stored is jumped to; the springboard calls a null \<^verbatim>\<open>func\<close>; \<^verbatim>\<open>abort()\<close> after
  \<^verbatim>\<open>posix_memalign\<close> failed; the constructor writes the record outside the block it was
  given, hands the child a stack pointer that is not a multiple of the stack alignment, or
  the child's stack runs below the block. All but the first and \<^verbatim>\<open>abort()\<close> are undefined
  behaviour in C. The last two belong to the implementation on kernel threads: a thread
  waits for a hand-off that no thread is left to make, and the constructor writes through
  the null pointer that \<^verbatim>\<open>malloc\<close> returned.
\<close>

datatype halt =
    Parent_returned | Use_after_free | Unreachable | Wild_jump | Null_call | Aborted
  | Outside_block | Misaligned_stack | Stack_overflow
  | Deadlock | Null_dereference

text \<open>
  The trace is what an observer of the channel sees, in order: the entry function being
  called with its argument, a pointer stored by \<^verbatim>\<open>yield_to\<close>, a swap (with the party that
  swapped away), a pointer returned by \<^verbatim>\<open>from\<close>, the entry function having returned, and
  a call of the release function. The code never reads it; \<open>released\<close>, \<open>yielded\<close>,
  \<open>got\<close> and \<open>swaps\<close> read it for the statements below (\<open>yielded\<close> and \<open>got\<close> keep
  the user data: pointers that are neither \<^verbatim>\<open>NULL\<close> nor the sentinel).
\<close>

fun released :: "event list \<Rightarrow> ptr list" where
  "released [] = []"
| "released (Released p # es) = p # released es"
| "released (e # es) = released es"

fun yielded :: "event list \<Rightarrow> nat list" where
  "yielded [] = []"
| "yielded (Yielded who (Addr a) # es) = a # yielded es"
| "yielded (e # es) = yielded es"

fun got :: "event list \<Rightarrow> nat list" where
  "got [] = []"
| "got (Got who (Addr a) # es) = a # got es"
| "got (e # es) = got es"

fun swaps :: "event list \<Rightarrow> nat" where
  "swaps [] = 0"
| "swaps (Swapped who # es) = Suc (swaps es)"
| "swaps (e # es) = swaps es"

fun slot :: "ptr \<Rightarrow> nat list" where
  "slot (Addr a) = [a]"
| "slot p = []"

section \<open>The operations\<close>

subsection \<open>SWAP_CONTEXT\<close>

text \<open>
  Stores where the running coroutine goes on (\<open>resume\<close>) into the buffer and goes on where
  the buffer said.
\<close>

definition SWAP_CONTEXT :: "'s frame \<Rightarrow> 's machine \<Rightarrow> 's machine" where
  "SWAP_CONTEXT resume m =
     m\<lparr>channel := (channel m)\<lparr>context_inactive := resume\<rparr>,
       running := context_inactive (channel m),
       active := peer (active m),
       trace := trace m @ [Swapped (active m)]\<rparr>"

subsection \<open>coroutine_switch, yield_to, from, close_and_join\<close>

definition coroutine_switch :: "'s \<Rightarrow> 's machine \<Rightarrow> 's machine" where
  "coroutine_switch ret m =
     (if func (channel m) \<noteq> None then SWAP_CONTEXT (User ret) m
      else m\<lparr>running := User ret\<rparr>)"

definition yield_to :: "ptr \<Rightarrow> 's frame \<Rightarrow> 's machine \<Rightarrow> 's machine" where
  "yield_to pointer ret m =
     SWAP_CONTEXT ret
       (m\<lparr>channel := (channel m)\<lparr>val := pointer\<rparr>,
          trace := trace m @ [Yielded (active m) pointer]\<rparr>)"

text \<open>\<^verbatim>\<open>if (channel->free_func) channel->free_func(channel->free_after);\<close>\<close>

definition release_hook :: "'s machine \<Rightarrow> 's machine" where
  "release_hook m =
     (case free_func (channel m) of
        None \<Rightarrow> m
      | Some f \<Rightarrow> m\<lparr>trace := trace m @ [Released (free_after (channel m))]\<rparr>)"

text \<open>
  \<^verbatim>\<open>from\<close> is \<open>from_channel\<close> here; \<open>from_take\<close> is the part of it below its
  \<^verbatim>\<open>SWAP_CONTEXT\<close>, where the caller goes on when it is resumed.
\<close>

definition from_take :: "(ptr \<Rightarrow> 's) \<Rightarrow> 's machine \<Rightarrow> 's machine" where
  "from_take ret m =
     (if func (channel m) = None then
        (let m' = release_hook m
         in m'\<lparr>running := User (ret NULL), trace := trace m' @ [Got (active m) NULL]\<rparr>)
      else
        (let taken = val (channel m)
         in m\<lparr>channel := (channel m)\<lparr>val := not_filled\<rparr>,
              running := User (ret taken),
              trace := trace m @ [Got (active m) taken]\<rparr>))"

definition from_channel :: "(ptr \<Rightarrow> 's) \<Rightarrow> 's machine \<Rightarrow> 's machine" where
  "from_channel ret m =
     (if func (channel m) \<noteq> None \<and> not_filled = val (channel m)
      then SWAP_CONTEXT (In_from ret) m
      else from_take ret m)"

text \<open>
  One test of the \<^verbatim>\<open>while\<close> loop of \<^verbatim>\<open>close_and_join\<close>: the body suspends the caller in
  \<^verbatim>\<open>yield_to\<close>, and the loop is tested again when the caller is resumed
  (\<open>In_close_and_join\<close>).
\<close>

definition close_and_join :: "'s \<Rightarrow> 's machine \<Rightarrow> 's machine" where
  "close_and_join ret m =
     (if func (channel m) \<noteq> None then yield_to NULL (In_close_and_join ret) m
      else (release_hook m)\<lparr>running := User ret\<rparr>)"

subsection \<open>springboard\<close>

text \<open>Up to the call of the entry function.\<close>

definition springboard :: "'s machine \<Rightarrow> halt + 's machine" where
  "springboard m =
     (let arg = val (channel m);
          m1 = m\<lparr>channel := (channel m)\<lparr>val := not_filled\<rparr>\<rparr>
      in case func (channel m1) of
           None \<Rightarrow> Inl Null_call
         | Some f \<Rightarrow> Inr (m1\<lparr>running := User (f arg), trace := trace m1 @ [Entered arg]\<rparr>))"

text \<open>From the return of the entry function on.\<close>

definition springboard_exit :: "'s machine \<Rightarrow> 's machine" where
  "springboard_exit m =
     SWAP_CONTEXT In_springboard
       (m\<lparr>channel := (channel m)\<lparr>func := None\<rparr>, trace := trace m @ [Finished]\<rparr>)"

subsection \<open>Running the two coroutines\<close>

text \<open>
  Every operation reads the record, which lies in the block the release function was given:
  once that has been called the record is gone.
\<close>

definition deref :: "'s machine \<Rightarrow> 's machine \<Rightarrow> halt + 's machine" where
  "deref m m' = (if released (trace m) = [] then Inr m' else Inl Use_after_free)"

definition step :: "('s \<Rightarrow> 's call) \<Rightarrow> 's machine \<Rightarrow> halt + 's machine" where
  "step code m =
     (case running m of
        User s \<Rightarrow>
          (case code s of
             Yield_to pointer s' \<Rightarrow> deref m (yield_to pointer (User s') m)
           | From ret \<Rightarrow> deref m (from_channel ret m)
           | Coroutine_switch s' \<Rightarrow> deref m (coroutine_switch s' m)
           | Close_and_join s' \<Rightarrow> deref m (close_and_join s' m)
           | Return \<Rightarrow>
               (case active m of
                  Parent \<Rightarrow> Inl Parent_returned
                | Child \<Rightarrow> deref m (springboard_exit m)))
      | In_from ret \<Rightarrow> deref m (from_take ret m)
      | In_close_and_join s \<Rightarrow> deref m (close_and_join s m)
      | In_springboard \<Rightarrow> Inl Unreachable
      | Zeroed \<Rightarrow> Inl Wild_jump)"

fun run :: "('s \<Rightarrow> 's call) \<Rightarrow> nat \<Rightarrow> 's machine \<Rightarrow> halt + 's machine" where
  "run code 0 m = Inr m"
| "run code (Suc n) m =
     (case step code m of Inl h \<Rightarrow> Inl h | Inr m' \<Rightarrow> run code n m')"

subsection \<open>Architecture constants\<close>

datatype arch = X86_64 | AARCH64 | ARM | I386 | RISCV | M68K | AVR | PPC64 | MIPS | SH4 | OR1K

fun CONTEXT_BUF_SIZE_BYTES :: "arch \<Rightarrow> int" where
  "CONTEXT_BUF_SIZE_BYTES X86_64 = 24"
| "CONTEXT_BUF_SIZE_BYTES AARCH64 = 32"
| "CONTEXT_BUF_SIZE_BYTES ARM = 4"
| "CONTEXT_BUF_SIZE_BYTES I386 = 12"
| "CONTEXT_BUF_SIZE_BYTES RISCV = 32"
| "CONTEXT_BUF_SIZE_BYTES M68K = 16"
| "CONTEXT_BUF_SIZE_BYTES AVR = 8"
| "CONTEXT_BUF_SIZE_BYTES PPC64 = 32"
| "CONTEXT_BUF_SIZE_BYTES MIPS = 16"
| "CONTEXT_BUF_SIZE_BYTES SH4 = 16"
| "CONTEXT_BUF_SIZE_BYTES OR1K = 12"

fun STACK_ALIGNMENT :: "arch \<Rightarrow> int" where
  "STACK_ALIGNMENT X86_64 = 64"
| "STACK_ALIGNMENT AARCH64 = 64"
| "STACK_ALIGNMENT ARM = 8"
| "STACK_ALIGNMENT I386 = 16"
| "STACK_ALIGNMENT RISCV = 64"
| "STACK_ALIGNMENT M68K = 16"
| "STACK_ALIGNMENT AVR = 1"
| "STACK_ALIGNMENT PPC64 = 64"
| "STACK_ALIGNMENT MIPS = 64"
| "STACK_ALIGNMENT SH4 = 8"
| "STACK_ALIGNMENT OR1K = 64"

subsection \<open>coroutine_create_given_memory and coroutine_create\<close>

text \<open>
  \<^verbatim>\<open>(blocksize - sizeof(struct channel)) & ~(STACK_ALIGNMENT - 1)\<close>: the subtraction is
  in \<^verbatim>\<open>size_t\<close> (a word of the target's width), the mask is computed in \<^verbatim>\<open>int\<close> and
  converted to \<^verbatim>\<open>size_t\<close>. \<open>sz\<close> is \<^verbatim>\<open>sizeof(struct channel)\<close>, which the compiler fixes.
\<close>

definition channel_offset :: "arch \<Rightarrow> 'a::len word \<Rightarrow> 'a word \<Rightarrow> 'a word" where
  "channel_offset a sz blocksize = (blocksize - sz) AND of_int (NOT (STACK_ALIGNMENT a - 1))"

text \<open>\<^verbatim>\<open>*channel = (struct channel) { .func = func, .value = arg };\<close>\<close>

definition channel_literal :: "(ptr \<Rightarrow> 's) \<Rightarrow> ptr \<Rightarrow> 's channel" where
  "channel_literal f arg =
     \<lparr>context_inactive = Zeroed, func = Some f, val = arg, free_after = NULL, free_func = None\<rparr>"

text \<open>
  \<^verbatim>\<open>BOOTSTRAP_CONTEXT(buf, func)\<close> stores where the caller goes on and calls \<open>f\<close> on the
  new stack.
\<close>

definition BOOTSTRAP_CONTEXT ::
  "'s frame \<Rightarrow> ('s machine \<Rightarrow> halt + 's machine) \<Rightarrow> 's machine \<Rightarrow> halt + 's machine" where
  "BOOTSTRAP_CONTEXT resume f m =
     f (m\<lparr>channel := (channel m)\<lparr>context_inactive := resume\<rparr>, active := Child\<rparr>)"

text \<open>
  The record is written at \<open>block + channel_offset\<close>; the child's stack starts at the record
  and grows down towards \<open>block\<close> (\<^verbatim>\<open>BOOTSTRAP_CONTEXT\<close> loads the stack pointer with the
  address of the record and calls the springboard). \<open>stack\<close> is the number of bytes the child
  pushes below the record before the call comes back, which the compiler fixes as it fixes
  \<open>sz\<close>. The source checks nothing: a record that does not lie inside the block, a stack
  pointer that is not a multiple of \<^verbatim>\<open>STACK_ALIGNMENT\<close> and a stack that does not fit between
  \<open>block\<close> and the record are undefined behaviour, and halts here.

  The call comes back when the child swaps for the first time (the source: "control flow
  returns here via the first coroutine_switch in the child"): the child's code runs inside
  the call, from the springboard up to its first operation on the channel. \<open>ret\<close> is the
  control state in which the caller goes on with the pointer returned.
\<close>

definition coroutine_create_given_memory ::
  "('s \<Rightarrow> 's call) \<Rightarrow> arch \<Rightarrow> 'a::len word \<Rightarrow> nat \<Rightarrow> (ptr \<Rightarrow> 's) \<Rightarrow> ptr \<Rightarrow> 'a word \<Rightarrow> 'a word
     \<Rightarrow> 's \<Rightarrow> halt + ('a word \<times> 's machine)" where
  "coroutine_create_given_memory code a sz stack f arg block blocksize ret =
     (let chan = block + channel_offset a sz blocksize;
          m = \<lparr>channel = channel_literal f arg, running = User ret, active = Parent, trace = []\<rparr>
      in if unat blocksize < unat (channel_offset a sz blocksize) + unat sz then Inl Outside_block
         else if unat chan mod nat (STACK_ALIGNMENT a) \<noteq> 0 then Inl Misaligned_stack
         else if unat (channel_offset a sz blocksize) < stack then Inl Stack_overflow
         else
           case BOOTSTRAP_CONTEXT (User ret)
                  (\<lambda>m. case springboard m of Inl h \<Rightarrow> Inl h | Inr m' \<Rightarrow> step code m') m of
             Inl h \<Rightarrow> Inl h
           | Inr m' \<Rightarrow> Inr (chan, m'))"

text \<open>
  \<open>memalign\<close> is what \<^verbatim>\<open>posix_memalign\<close> did: \<open>None\<close> when it failed, else the block.
\<close>

definition ptr_of :: "'a::len word \<Rightarrow> ptr" where
  "ptr_of w = (if w = 0 then NULL else Addr (unat w))"

definition coroutine_create ::
  "('s \<Rightarrow> 's call) \<Rightarrow> arch \<Rightarrow> 'a::len word \<Rightarrow> nat \<Rightarrow> 'a word option \<Rightarrow> (ptr \<Rightarrow> 's) \<Rightarrow> ptr
     \<Rightarrow> 's \<Rightarrow> halt + ('a word \<times> 's machine)" where
  "coroutine_create code a sz stack memalign f arg ret =
     (case memalign of
        None \<Rightarrow> Inl Aborted
      | Some block \<Rightarrow>
          (case coroutine_create_given_memory code a sz stack f arg block 524288 ret of
             Inl h \<Rightarrow> Inl h
           | Inr (chan, m) \<Rightarrow>
               Inr (chan, m\<lparr>channel := (channel m)\<lparr>free_after := ptr_of block,
                                                  free_func := Some libc_free\<rparr>\<rparr>)))"

subsection \<open>Runs from the creation of the channel\<close>

definition run_created ::
  "('s \<Rightarrow> 's call) \<Rightarrow> nat \<Rightarrow> halt + ('a::len word \<times> 's machine) \<Rightarrow> halt + 's machine" where
  "run_created code n created =
     (case created of Inl h \<Rightarrow> Inl h | Inr (chan, m) \<Rightarrow> run code n m)"

definition observed :: "halt + 's machine \<Rightarrow> event list" where
  "observed r = (case r of Inl h \<Rightarrow> [] | Inr m \<Rightarrow> trace m)"

section \<open>The same interface on kernel threads\<close>

text \<open>
  The second implementation of \<^verbatim>\<open>coroutine.h\<close> runs the child on a thread of its own. All
  threads of a tree of coroutines share one mutex and a thread runs only while it holds it;
  \<^verbatim>\<open>context_switch\<close> flips \<^verbatim>\<open>in_child\<close>, signals the condition variable and waits on it
  until \<^verbatim>\<open>in_child\<close> has the value it had at entry. So exactly one of the two threads goes
  on at any time, the one that \<^verbatim>\<open>in_child\<close> names, and this hand-off is what is modelled;
  the mutex and the condition variable carry no other state.

  \<open>thread\<close> is the place at which the child's thread goes on when it is its turn
  (\<open>In_springboard\<close>: it has returned from the springboard and is gone), \<open>parent_thread\<close> the
  same for the thread that made the channel, \<open>malloced\<close> the address of the record. The names
  of the first implementation carry the suffix \<open>_pt\<close> here.
\<close>

record 's channel_pt =
  thread :: "'s frame"
  in_child :: bool
  func_pt :: "(ptr \<Rightarrow> 's) option"
  value_pt :: ptr

record 's threads =
  channel_pt :: "'s channel_pt"
  parent_thread :: "'s frame"
  malloced :: ptr
  trace_pt :: "event list"

definition side :: "'s threads \<Rightarrow> party" where
  "side m = (if in_child (channel_pt m) then Child else Parent)"

definition place :: "'s threads \<Rightarrow> 's frame" where
  "place m = (if in_child (channel_pt m) then thread (channel_pt m) else parent_thread m)"

text \<open>The thread that runs goes on at \<open>r\<close>.\<close>

definition goes_on :: "'s frame \<Rightarrow> 's threads \<Rightarrow> 's threads" where
  "goes_on r m =
     (if in_child (channel_pt m) then m\<lparr>channel_pt := (channel_pt m)\<lparr>thread := r\<rparr>\<rparr>
      else m\<lparr>parent_thread := r\<rparr>)"

definition seen :: "event \<Rightarrow> 's threads \<Rightarrow> 's threads" where
  "seen e m = m\<lparr>trace_pt := trace_pt m @ [e]\<rparr>"

text \<open>
  The caller waits at \<open>resume\<close> until \<^verbatim>\<open>in_child\<close> is \<^verbatim>\<open>in_child_at_entry\<close> again; the
  other thread, which waited for the value \<^verbatim>\<open>in_child\<close> has now, goes on.
\<close>

definition context_switch :: "'s frame \<Rightarrow> 's threads \<Rightarrow> 's threads" where
  "context_switch resume m =
     (let in_child_at_entry = in_child (channel_pt m);
          m1 = seen (Swapped (side m)) (goes_on resume m)
      in m1\<lparr>channel_pt := (channel_pt m1)\<lparr>in_child := \<not> in_child_at_entry\<rparr>\<rparr>)"

definition coroutine_switch_pt :: "'s \<Rightarrow> 's threads \<Rightarrow> 's threads" where
  "coroutine_switch_pt ret m =
     (if func_pt (channel_pt m) = None then goes_on (User ret) m
      else context_switch (User ret) m)"

definition yield_to_pt :: "ptr \<Rightarrow> 's frame \<Rightarrow> 's threads \<Rightarrow> 's threads" where
  "yield_to_pt pointer ret m =
     context_switch ret
       (seen (Yielded (side m) pointer) (m\<lparr>channel_pt := (channel_pt m)\<lparr>value_pt := pointer\<rparr>\<rparr>))"

text \<open>
  \<^verbatim>\<open>pthread_join\<close> returns when the child's thread has ended, and never if it does not end;
  then the record is given to \<^verbatim>\<open>free\<close>, whatever constructor made the channel.
\<close>

definition channel_join_and_cleanup :: "'s threads \<Rightarrow> halt + 's threads" where
  "channel_join_and_cleanup m =
     (case thread (channel_pt m) of
        In_springboard \<Rightarrow> Inr (seen (Released (malloced m)) m)
      | _ \<Rightarrow> Inl Deadlock)"

definition from_take_pt :: "(ptr \<Rightarrow> 's) \<Rightarrow> 's threads \<Rightarrow> halt + 's threads" where
  "from_take_pt ret m =
     (if func_pt (channel_pt m) = None then
        (case channel_join_and_cleanup m of
           Inl h \<Rightarrow> Inl h
         | Inr m' \<Rightarrow> Inr (seen (Got (side m) NULL) (goes_on (User (ret NULL)) m')))
      else
        (let taken = value_pt (channel_pt m);
             m1 = m\<lparr>channel_pt := (channel_pt m)\<lparr>value_pt := not_filled\<rparr>\<rparr>
         in Inr (seen (Got (side m) taken) (goes_on (User (ret taken)) m1))))"

definition from_pt :: "(ptr \<Rightarrow> 's) \<Rightarrow> 's threads \<Rightarrow> halt + 's threads" where
  "from_pt ret m =
     (if func_pt (channel_pt m) \<noteq> None \<and> not_filled = value_pt (channel_pt m)
      then Inr (context_switch (In_from ret) m)
      else from_take_pt ret m)"

definition close_and_join_pt :: "'s \<Rightarrow> 's threads \<Rightarrow> halt + 's threads" where
  "close_and_join_pt ret m =
     (if func_pt (channel_pt m) \<noteq> None then Inr (yield_to_pt NULL (In_close_and_join ret) m)
      else
        (case channel_join_and_cleanup m of
           Inl h \<Rightarrow> Inl h
         | Inr m' \<Rightarrow> Inr (goes_on (User ret) m')))"

text \<open>The springboard of the child's thread, up to the call of the entry function.\<close>

definition springboard_pt :: "'s threads \<Rightarrow> halt + 's threads" where
  "springboard_pt m =
     (let arg = value_pt (channel_pt m);
          m1 = m\<lparr>channel_pt := (channel_pt m)\<lparr>value_pt := not_filled\<rparr>\<rparr>
      in case func_pt (channel_pt m1) of
           None \<Rightarrow> Inl Null_call
         | Some f \<Rightarrow> Inr (seen (Entered arg) (goes_on (User (f arg)) m1)))"

text \<open>
  From the return of the entry function on: \<^verbatim>\<open>func\<close> and \<^verbatim>\<open>in_child\<close> are cleared, the
  parent is signalled, and the thread ends. The hand-off is recorded as a swap, as it is
  for the first implementation.
\<close>

definition springboard_return :: "'s threads \<Rightarrow> 's threads" where
  "springboard_return m =
     seen (Swapped Child)
       (seen Finished
          (m\<lparr>channel_pt := (channel_pt m)\<lparr>func_pt := None, in_child := False,
                                            thread := In_springboard\<rparr>\<rparr>))"

text \<open>
  One operation of the thread whose turn it is. When it is the turn of a thread that has
  ended, the other one waits for ever. \<open>Zeroed\<close> is the child's thread before
  \<^verbatim>\<open>pthread_create\<close>; \<^verbatim>\<open>coroutine_create\<close> starts it before anything else runs.
\<close>

definition deref_pt :: "'s threads \<Rightarrow> halt + 's threads \<Rightarrow> halt + 's threads" where
  "deref_pt m r = (if released (trace_pt m) = [] then r else Inl Use_after_free)"

definition step_pt :: "('s \<Rightarrow> 's call) \<Rightarrow> 's threads \<Rightarrow> halt + 's threads" where
  "step_pt code m =
     (case place m of
        User s \<Rightarrow>
          (case code s of
             Yield_to pointer s' \<Rightarrow> deref_pt m (Inr (yield_to_pt pointer (User s') m))
           | From ret \<Rightarrow> deref_pt m (from_pt ret m)
           | Coroutine_switch s' \<Rightarrow> deref_pt m (Inr (coroutine_switch_pt s' m))
           | Close_and_join s' \<Rightarrow> deref_pt m (close_and_join_pt s' m)
           | Return \<Rightarrow>
               (case side m of
                  Parent \<Rightarrow> Inl Parent_returned
                | Child \<Rightarrow> deref_pt m (Inr (springboard_return m))))
      | In_from ret \<Rightarrow> deref_pt m (from_take_pt ret m)
      | In_close_and_join s \<Rightarrow> deref_pt m (close_and_join_pt s m)
      | In_springboard \<Rightarrow> Inl Deadlock
      | Zeroed \<Rightarrow> Inl Wild_jump)"

fun run_pt :: "('s \<Rightarrow> 's call) \<Rightarrow> nat \<Rightarrow> 's threads \<Rightarrow> halt + 's threads" where
  "run_pt code 0 m = Inr m"
| "run_pt code (Suc n) m =
     (case step_pt code m of Inl h \<Rightarrow> Inl h | Inr m' \<Rightarrow> run_pt code n m')"

text \<open>
  \<^verbatim>\<open>coroutine_create\<close>: \<open>malloc\<close> is what \<^verbatim>\<open>malloc\<close> returned for the record (\<open>None\<close>: a
  null pointer, which the source writes through). The record is written with
  \<^verbatim>\<open>in_child = 1\<close>, the thread is started in the springboard, and the caller waits until
  \<^verbatim>\<open>in_child\<close> is 0: the child runs up to its first operation on the channel.
\<close>

definition coroutine_create_pt ::
  "('s \<Rightarrow> 's call) \<Rightarrow> 'a::len word option \<Rightarrow> (ptr \<Rightarrow> 's) \<Rightarrow> ptr \<Rightarrow> 's
     \<Rightarrow> halt + ('a word \<times> 's threads)" where
  "coroutine_create_pt code malloc f arg ret =
     (case malloc of
        None \<Rightarrow> Inl Null_dereference
      | Some chan \<Rightarrow>
          (let m = \<lparr>channel_pt = \<lparr>thread = Zeroed, in_child = True, func_pt = Some f,
                                    value_pt = arg\<rparr>,
                    parent_thread = User ret, malloced = ptr_of chan, trace_pt = []\<rparr>
           in case springboard_pt m of
                Inl h \<Rightarrow> Inl h
              | Inr m1 \<Rightarrow>
                  (case step_pt code m1 of
                     Inl h \<Rightarrow> Inl h
                   | Inr m' \<Rightarrow> Inr (chan, m'))))"

text \<open>\<^verbatim>\<open>(void)block; (void)blocksize; return coroutine_create(func, arg);\<close>\<close>

definition coroutine_create_given_memory_pt ::
  "('s \<Rightarrow> 's call) \<Rightarrow> 'a::len word option \<Rightarrow> (ptr \<Rightarrow> 's) \<Rightarrow> ptr \<Rightarrow> 'a word \<Rightarrow> 'a word \<Rightarrow> 's
     \<Rightarrow> halt + ('a word \<times> 's threads)" where
  "coroutine_create_given_memory_pt code malloc f arg block blocksize ret =
     coroutine_create_pt code malloc f arg ret"

definition run_created_pt ::
  "('s \<Rightarrow> 's call) \<Rightarrow> nat \<Rightarrow> halt + ('a::len word \<times> 's threads) \<Rightarrow> halt + 's threads" where
  "run_created_pt code n created =
     (case created of Inl h \<Rightarrow> Inl h | Inr (chan, m) \<Rightarrow> run_pt code n m)"

definition observed_pt :: "halt + 's threads \<Rightarrow> event list" where
  "observed_pt r = (case r of Inl h \<Rightarrow> [] | Inr m \<Rightarrow> trace_pt m)"

subsection \<open>A state of the threads, read as a state of the first implementation\<close>

text \<open>
  The thread whose turn it is is the running coroutine, the place where the other thread
  waits is what \<^verbatim>\<open>context_inactive\<close> holds, and the record that \<^verbatim>\<open>free\<close> gets stands for
  the block \<open>block\<close> (with the record inside) that the release hook of a channel made by
  the first implementation's \<^verbatim>\<open>coroutine_create\<close> gets. A thread that waits for ever is
  read as control behind the last swap of the springboard.
\<close>

fun released_as :: "ptr \<Rightarrow> event \<Rightarrow> event" where
  "released_as block (Released p) = Released block"
| "released_as block e = e"

definition as_machine :: "ptr \<Rightarrow> 's threads \<Rightarrow> 's machine" where
  "as_machine block m =
     \<lparr>channel = \<lparr>context_inactive =
                    (if in_child (channel_pt m) then parent_thread m else thread (channel_pt m)),
                  func = func_pt (channel_pt m), val = value_pt (channel_pt m),
                  free_after = block, free_func = Some libc_free\<rparr>,
      running = place m, active = side m,
      trace = map (released_as block) (trace_pt m)\<rparr>"

fun as_halt :: "halt \<Rightarrow> halt" where
  "as_halt Deadlock = Unreachable"
| "as_halt h = h"

definition as_result :: "ptr \<Rightarrow> halt + 's threads \<Rightarrow> halt + 's machine" where
  "as_result block r = (case r of Inl h \<Rightarrow> Inl (as_halt h) | Inr m \<Rightarrow> Inr (as_machine block m))"

text \<open>
  A channel made by \<^verbatim>\<open>coroutine_create_given_memory\<close> of the first implementation has no
  release hook: for the comparison with such a channel the calls of \<^verbatim>\<open>free\<close> are left out.
\<close>

fun no_release :: "event \<Rightarrow> bool" where
  "no_release (Released p) = False"
| "no_release e = True"

definition as_given_machine :: "'s threads \<Rightarrow> 's machine" where
  "as_given_machine m =
     \<lparr>channel = \<lparr>context_inactive =
                    (if in_child (channel_pt m) then parent_thread m else thread (channel_pt m)),
                  func = func_pt (channel_pt m), val = value_pt (channel_pt m),
                  free_after = NULL, free_func = None\<rparr>,
      running = place m, active = side m,
      trace = filter no_release (trace_pt m)\<rparr>"

definition as_given_result :: "halt + 's threads \<Rightarrow> halt + 's machine" where
  "as_given_result r =
     (case r of Inl h \<Rightarrow> Inl (as_halt h) | Inr m \<Rightarrow> Inr (as_given_machine m))"

text \<open>The record has been given to \<^verbatim>\<open>free\<close> only if the entry is empty.\<close>

definition freed_only_dead :: "'s threads \<Rightarrow> bool" where
  "freed_only_dead m = (released (trace_pt m) = [] \<or> func_pt (channel_pt m) = None)"

section \<open>Programs in the style of cotests.c\<close>

text \<open>
  \<open>Gen n\<close> is a generator that yields four pointers and returns (\<^verbatim>\<open>generator_silent\<close>,
  \<^verbatim>\<open>morse_generator\<close>); \<open>Consume\<close> is the loop \<^verbatim>\<open>while (from(channel));\<close> of
  \<^verbatim>\<open>consumer_trivial\<close> and \<^verbatim>\<open>child_consumer_trivial\<close>; \<open>Done\<close> returns at once
  (\<^verbatim>\<open>generator_trivial\<close>); \<open>Close\<close> is the parent of \<^verbatim>\<open>parent_to_child_trivial\<close>;
  \<open>Hand_off\<close> hands control over once and then sends the end-of-stream marker
  (\<open>Hand_off_twice\<close> hands control over once more before), as the child of
  \<^verbatim>\<open>cooperative_multitasking_child\<close> does with \<^verbatim>\<open>coroutine_switch\<close>.
\<close>

datatype pc =
    Gen nat | Consume | Done | Close | Close_then_consume | Send_nil | Hand_off | Hand_off_twice

fun cotests :: "pc \<Rightarrow> pc call" where
  "cotests (Gen n) = (if n < 4 then Yield_to (Addr (Suc n)) (Gen (Suc n)) else Return)"
| "cotests Consume = From (\<lambda>p. if p = NULL then Done else Consume)"
| "cotests Done = Return"
| "cotests Close = Close_and_join Done"
| "cotests Close_then_consume = Close_and_join Consume"
| "cotests Send_nil = Yield_to NULL Done"
| "cotests Hand_off = Coroutine_switch Send_nil"
| "cotests Hand_off_twice = Coroutine_switch Hand_off"

text \<open>
  \<open>consumer_waits s\<close>: \<^verbatim>\<open>coroutine_create_given_memory\<close> has returned to a parent that goes on
  in state \<open>s\<close>; the child is \<open>Consume\<close> and waits in its first \<^verbatim>\<open>from\<close>.
  \<open>nil_received\<close>: two steps after \<open>consumer_waits Close\<close>, the child has got \<^verbatim>\<open>NULL\<close> from
  its \<^verbatim>\<open>from\<close> and is about to return, the parent is inside \<^verbatim>\<open>close_and_join\<close>.
\<close>

definition consumer_waits :: "pc \<Rightarrow> pc machine" where
  "consumer_waits s =
     \<lparr>channel = \<lparr>context_inactive = In_from (\<lambda>p. if p = NULL then Done else Consume),
                  func = Some (\<lambda>arg. Consume), val = not_filled,
                  free_after = NULL, free_func = None\<rparr>,
      running = User s, active = Parent,
      trace = [Entered (Addr 99), Swapped Child]\<rparr>"

definition nil_received :: "pc machine" where
  "nil_received =
     \<lparr>channel = \<lparr>context_inactive = In_close_and_join Done,
                  func = Some (\<lambda>arg. Consume), val = not_filled,
                  free_after = NULL, free_func = None\<rparr>,
      running = User Done, active = Child,
      trace = [Entered (Addr 99), Swapped Child, Yielded Parent NULL, Swapped Parent,
               Got Child NULL]\<rparr>"

text \<open>
  \<open>slot_emptied\<close>: the generator \<open>Gen 0\<close> has yielded its first pointer inside the
  constructor and the parent's \<^verbatim>\<open>from\<close> has taken it. \<open>slot_refilled\<close>: two steps later the
  parent's next \<^verbatim>\<open>from\<close> has swapped to the generator, which has yielded its second
  pointer, and the parent is resumed inside \<^verbatim>\<open>from\<close>.
  \<open>hand_off_waits\<close>: the child \<open>Hand_off\<close> has handed control to the parent, the parent
  waits in \<^verbatim>\<open>from\<close>, and the child is about to send the end-of-stream marker.
\<close>

definition slot_emptied :: "pc machine" where
  "slot_emptied =
     \<lparr>channel = \<lparr>context_inactive = User (Gen 1), func = Some (\<lambda>arg. Gen 0), val = not_filled,
                  free_after = NULL, free_func = None\<rparr>,
      running = User Consume, active = Parent,
      trace = [Entered (Addr 99), Yielded Child (Addr 1), Swapped Child, Got Parent (Addr 1)]\<rparr>"

definition slot_refilled :: "pc machine" where
  "slot_refilled =
     \<lparr>channel = \<lparr>context_inactive = User (Gen 2), func = Some (\<lambda>arg. Gen 0), val = Addr 2,
                  free_after = NULL, free_func = None\<rparr>,
      running = In_from (\<lambda>p. if p = NULL then Done else Consume), active = Parent,
      trace = [Entered (Addr 99), Yielded Child (Addr 1), Swapped Child, Got Parent (Addr 1),
               Swapped Parent, Yielded Child (Addr 2), Swapped Child]\<rparr>"

definition hand_off_waits :: "pc machine" where
  "hand_off_waits =
     \<lparr>channel = \<lparr>context_inactive = In_from (\<lambda>p. if p = NULL then Done else Consume),
                  func = Some (\<lambda>arg. Hand_off), val = not_filled,
                  free_after = NULL, free_func = None\<rparr>,
      running = User Send_nil, active = Child,
      trace = [Entered (Addr 99), Swapped Child, Swapped Parent]\<rparr>"

text \<open>
  \<open>heap_consumer_waits\<close>: as \<open>consumer_waits Close\<close>, the channel made by
  \<^verbatim>\<open>coroutine_create\<close> in a block at address 4096.
\<close>

definition heap_consumer_waits :: "pc machine" where
  "heap_consumer_waits =
     \<lparr>channel = \<lparr>context_inactive = In_from (\<lambda>p. if p = NULL then Done else Consume),
                  func = Some (\<lambda>arg. Consume), val = not_filled,
                  free_after = Addr 4096, free_func = Some libc_free\<rparr>,
      running = User Close, active = Parent,
      trace = [Entered (Addr 99), Swapped Child]\<rparr>"

section \<open>Invariants of the machine\<close>

text \<open>
  The entry is empty only when the child has left through the springboard (its context is
  the dead end of the springboard, or control has been switched into that dead end), and
  the release function has been called only on a channel whose entry is empty.
\<close>

definition consistent :: "'s machine \<Rightarrow> bool" where
  "consistent m =
     ((func (channel m) = None \<longrightarrow>
         (if active m = Parent then context_inactive (channel m) = In_springboard
          else running m = In_springboard)) \<and>
      (released (trace m) \<noteq> [] \<longrightarrow> func (channel m) = None))"

text \<open>
  The data returned by \<^verbatim>\<open>from\<close> so far, followed by the datum in the slot if there is
  one, have been placed by \<^verbatim>\<open>yield_to\<close>, in this order.
\<close>

definition pending :: "'s machine \<Rightarrow> bool" where
  "pending m = subseq (got (trace m) @ slot (val (channel m))) (yielded (trace m))"

section \<open>Basic facts\<close>

lemma released_append: "released (xs @ ys) = released xs @ released ys"
  by (induction xs rule: released.induct) simp_all

lemma yielded_append: "yielded (xs @ ys) = yielded xs @ yielded ys"
  by (induction xs rule: yielded.induct) simp_all

lemma got_append: "got (xs @ ys) = got xs @ got ys"
  by (induction xs rule: got.induct) simp_all

lemma swaps_append: "swaps (xs @ ys) = swaps xs + swaps ys"
  by (induction xs rule: swaps.induct) simp_all

lemma yielded_Yielded: "yielded (Yielded who p # es) = slot p @ yielded es"
  by (cases p) simp_all

lemma got_Got: "got (Got who p # es) = slot p @ got es"
  by (cases p) simp_all

lemmas ops_defs = step_def deref_def yield_to_def from_channel_def from_take_def
  coroutine_switch_def close_and_join_def springboard_exit_def SWAP_CONTEXT_def release_hook_def

subsection \<open>What one step cannot do\<close>

lemma step_func_None:
  "step code m = Inr m' \<Longrightarrow> func (channel m) = None \<Longrightarrow> func (channel m') = None"
  by (auto simp: ops_defs Let_def
        split: frame.splits call.splits party.splits if_splits option.splits)

lemma step_hooks:
  "step code m = Inr m' \<Longrightarrow>
     free_func (channel m') = free_func (channel m) \<and>
     free_after (channel m') = free_after (channel m)"
  by (auto simp: ops_defs Let_def
        split: frame.splits call.splits party.splits if_splits option.splits)

lemma step_released:
  "step code m = Inr m' \<Longrightarrow> free_func (channel m) = None \<Longrightarrow>
     released (trace m') = released (trace m)"
  by (auto simp: ops_defs Let_def released_append
        split: frame.splits call.splits party.splits if_splits option.splits)

lemma step_inv: "step code m = Inr m' \<Longrightarrow> consistent m \<Longrightarrow> consistent m'"
  unfolding consistent_def
  by (auto simp: ops_defs Let_def released_append
        split: frame.splits call.splits party.splits if_splits option.splits)

subsection \<open>The slot and the data in flight\<close>

lemma subseq_drop_slot:
  assumes "subseq (g @ s) y"
  shows "subseq g y"
proof -
  from assms obtain us vs where "y = us @ vs" "subseq g us"
    using list_emb_appendD by blast
  then show ?thesis by (simp add: subseq_rev_drop_many)
qed

lemma subseq_put: "subseq (g @ s) y \<Longrightarrow> subseq (g @ slot p) (y @ slot p)"
  by (rule list_emb_append_mono [OF subseq_drop_slot]) simp_all

lemma yield_to_pending:
  assumes "pending m"
  shows "pending (yield_to p r m)"
proof -
  from assms have "subseq (got (trace m) @ slot p) (yielded (trace m) @ slot p)"
    unfolding pending_def by (rule subseq_put)
  then show ?thesis
    by (simp add: pending_def yield_to_def SWAP_CONTEXT_def got_append yielded_append
          yielded_Yielded)
qed

lemma from_take_pending:
  assumes p: "pending m"
  shows "pending (from_take r m)"
proof -
  from p have "subseq (got (trace m)) (yielded (trace m))"
    unfolding pending_def by (rule subseq_drop_slot)
  with p show ?thesis
    by (simp add: pending_def from_take_def release_hook_def Let_def got_append
          yielded_append got_Got split: option.splits)
qed

lemma swap_pending: "pending (SWAP_CONTEXT r m) = pending m"
  by (simp add: pending_def SWAP_CONTEXT_def got_append yielded_append)

lemma springboard_exit_pending: "pending (springboard_exit m) = pending m"
  by (simp add: pending_def springboard_exit_def SWAP_CONTEXT_def got_append yielded_append)

lemma release_hook_pending: "pending (release_hook m) = pending m"
  by (simp add: pending_def release_hook_def got_append yielded_append split: option.splits)

lemma running_pending: "pending (m\<lparr>running := r\<rparr>) = pending m"
  by (simp add: pending_def)

lemma step_pending: "step code m = Inr m' \<Longrightarrow> pending m \<Longrightarrow> pending m'"
  using yield_to_pending [of m] from_take_pending [of m]
  by (auto simp: step_def deref_def from_channel_def close_and_join_def coroutine_switch_def
        swap_pending springboard_exit_pending release_hook_pending running_pending
        split: frame.splits call.splits party.splits if_splits)

subsection \<open>Runs\<close>

lemma run_invariant:
  assumes "\<And>m m'. step code m = Inr m' \<Longrightarrow> P m \<Longrightarrow> P m'"
  shows "run code n m = Inr m' \<Longrightarrow> P m \<Longrightarrow> P m'"
proof (induction n arbitrary: m)
  case 0
  then show ?case by simp
next
  case (Suc n)
  then show ?case using assms by (auto split: sum.splits)
qed

lemma run_add:
  "run code (i + j) m = (case run code i m of Inl h \<Rightarrow> Inl h | Inr m' \<Rightarrow> run code j m')"
  by (induction i arbitrary: m) (auto split: sum.splits)

lemma run_Suc_end:
  "run code (Suc i) m = (case run code i m of Inl h \<Rightarrow> Inl h | Inr m' \<Rightarrow> step code m')"
  using run_add [of code i 1 m] by (auto split: sum.splits)

lemma run_func_None:
  "run code n m = Inr m' \<Longrightarrow> func (channel m) = None \<Longrightarrow> func (channel m') = None"
  by (rule run_invariant [where P = "\<lambda>m. func (channel m) = None"]) (auto dest: step_func_None)

lemma step_empties:
  assumes "step code m = Inr m'" "func (channel m) \<noteq> None" "func (channel m') = None"
  shows "active m = Child \<and> (\<exists>s. running m = User s \<and> code s = Return) \<and>
         m' = springboard_exit m"
  using assms
  by (auto simp: step_def deref_def yield_to_def from_channel_def from_take_def
        coroutine_switch_def close_and_join_def SWAP_CONTEXT_def Let_def
        split: frame.splits call.splits party.splits if_splits)

lemma springboard_exit_effect:
  "trace (springboard_exit m) = trace m @ [Finished, Swapped (active m)] \<and>
   active (springboard_exit m) = peer (active m) \<and>
   running (springboard_exit m) = context_inactive (channel m) \<and>
   context_inactive (channel (springboard_exit m)) = In_springboard \<and>
   func (channel (springboard_exit m)) = None \<and>
   val (channel (springboard_exit m)) = val (channel m)"
  by (simp add: springboard_exit_def SWAP_CONTEXT_def)

lemma emptied_at_most_once:
  assumes a: "run code i m = Inr a" "step code a = Inr a'"
             "func (channel a) \<noteq> None" "func (channel a') = None"
      and b: "run code j m = Inr b" "func (channel b) \<noteq> None"
  shows "j \<le> i"
proof (rule ccontr)
  assume "\<not> j \<le> i"
  then obtain k where j: "j = Suc i + k" by (metis add_Suc less_iff_Suc_add not_less)
  from a(1,2) have "run code (Suc i) m = Inr a'" by (simp add: run_Suc_end del: run.simps)
  moreover from b(1) have "run code (Suc i + k) m = Inr b" unfolding j .
  ultimately have "run code k a' = Inr b"
    using run_add [of code "Suc i" k m] by (simp del: run.simps)
  with a(4) have "func (channel b) = None" by (rule run_func_None [rotated])
  with b(2) show False by simp
qed

subsection \<open>Creation\<close>

lemma springboard_bootstrap:
  "BOOTSTRAP_CONTEXT (User ret) springboard
     \<lparr>channel = channel_literal f arg, running = User ret, active = Parent, trace = []\<rparr> =
   Inr \<lparr>channel = \<lparr>context_inactive = User ret, func = Some f, val = not_filled,
                    free_after = NULL, free_func = None\<rparr>,
        running = User (f arg), active = Child, trace = [Entered arg]\<rparr>"
  by (simp add: BOOTSTRAP_CONTEXT_def springboard_def channel_literal_def)

lemma create_given_memory_eq:
  "coroutine_create_given_memory code a sz stack f arg block blocksize ret =
     (if unat blocksize < unat (channel_offset a sz blocksize) + unat sz then Inl Outside_block
      else if unat (block + channel_offset a sz blocksize) mod nat (STACK_ALIGNMENT a) \<noteq> 0
        then Inl Misaligned_stack
      else if unat (channel_offset a sz blocksize) < stack then Inl Stack_overflow
      else
        case step code \<lparr>channel = \<lparr>context_inactive = User ret, func = Some f,
                                     val = not_filled, free_after = NULL, free_func = None\<rparr>,
                          running = User (f arg), active = Child, trace = [Entered arg]\<rparr> of
          Inl h \<Rightarrow> Inl h
        | Inr m' \<Rightarrow> Inr (block + channel_offset a sz blocksize, m'))"
  by (simp add: coroutine_create_given_memory_def BOOTSTRAP_CONTEXT_def springboard_def
        channel_literal_def)

lemma first_slice:
  "step code \<lparr>channel = \<lparr>context_inactive = User ret, func = Some f, val = not_filled,
                           free_after = NULL, free_func = None\<rparr>,
               running = User (f arg), active = Child, trace = [Entered arg]\<rparr> =
   Inr (case code (f arg) of
          Yield_to p s' \<Rightarrow>
            \<lparr>channel = \<lparr>context_inactive = User s', func = Some f, val = p,
                         free_after = NULL, free_func = None\<rparr>,
             running = User ret, active = Parent,
             trace = [Entered arg, Yielded Child p, Swapped Child]\<rparr>
        | From k \<Rightarrow>
            \<lparr>channel = \<lparr>context_inactive = In_from k, func = Some f, val = not_filled,
                         free_after = NULL, free_func = None\<rparr>,
             running = User ret, active = Parent,
             trace = [Entered arg, Swapped Child]\<rparr>
        | Coroutine_switch s' \<Rightarrow>
            \<lparr>channel = \<lparr>context_inactive = User s', func = Some f, val = not_filled,
                         free_after = NULL, free_func = None\<rparr>,
             running = User ret, active = Parent,
             trace = [Entered arg, Swapped Child]\<rparr>
        | Close_and_join s' \<Rightarrow>
            \<lparr>channel = \<lparr>context_inactive = In_close_and_join s', func = Some f, val = NULL,
                         free_after = NULL, free_func = None\<rparr>,
             running = User ret, active = Parent,
             trace = [Entered arg, Yielded Child NULL, Swapped Child]\<rparr>
        | Return \<Rightarrow>
            \<lparr>channel = \<lparr>context_inactive = In_springboard, func = None, val = not_filled,
                         free_after = NULL, free_func = None\<rparr>,
             running = User ret, active = Parent,
             trace = [Entered arg, Finished, Swapped Child]\<rparr>)"
  by (simp add: ops_defs split: call.splits)

lemma create_given_memory_Inr:
  assumes "coroutine_create_given_memory code a sz stack f arg block blocksize ret = Inr (chan, m0)"
  shows "chan = block + channel_offset a sz blocksize \<and>
         step code \<lparr>channel = \<lparr>context_inactive = User ret, func = Some f, val = not_filled,
                                 free_after = NULL, free_func = None\<rparr>,
                      running = User (f arg), active = Child, trace = [Entered arg]\<rparr> = Inr m0"
  using assms unfolding create_given_memory_eq
  by (simp split: if_splits sum.splits)

lemma create_given_memory_fits:
  assumes "unat (channel_offset a sz blocksize) + unat sz \<le> unat blocksize"
      and "unat (block + channel_offset a sz blocksize) mod nat (STACK_ALIGNMENT a) = 0"
      and "stack \<le> unat (channel_offset a sz blocksize)"
  shows "coroutine_create_given_memory code a sz stack f arg block blocksize ret =
     (case step code \<lparr>channel = \<lparr>context_inactive = User ret, func = Some f,
                                  val = not_filled, free_after = NULL, free_func = None\<rparr>,
                       running = User (f arg), active = Child, trace = [Entered arg]\<rparr> of
        Inl h \<Rightarrow> Inl h
      | Inr m' \<Rightarrow> Inr (block + channel_offset a sz blocksize, m'))"
  using assms unfolding create_given_memory_eq by (simp add: not_less)

lemma created_facts:
  assumes "coroutine_create_given_memory code a sz stack f arg block blocksize ret = Inr (chan, m0)"
  shows "consistent m0 \<and> pending m0 \<and> free_func (channel m0) = None \<and>
         free_after (channel m0) = NULL \<and> released (trace m0) = []"
proof -
  from create_given_memory_Inr [OF assms] have
    "step code \<lparr>channel = \<lparr>context_inactive = User ret, func = Some f, val = not_filled,
                                 free_after = NULL, free_func = None\<rparr>,
                      running = User (f arg), active = Child, trace = [Entered arg]\<rparr> = Inr m0"
    by simp
  then show ?thesis unfolding first_slice
    by (auto simp: consistent_def pending_def yielded_Yielded split: call.splits)
qed

lemma created_facts':
  assumes "coroutine_create code a sz stack memalign f arg ret = Inr (chan, m0)"
  shows "consistent m0 \<and> pending m0 \<and> released (trace m0) = []"
proof -
  from assms obtain block m where
    c: "coroutine_create_given_memory code a sz stack f arg block 524288 ret = Inr (chan, m)"
    and m0: "m0 = m\<lparr>channel := (channel m)\<lparr>free_after := ptr_of block,
                                            free_func := Some libc_free\<rparr>\<rparr>"
    by (auto simp: coroutine_create_def split: option.splits sum.splits)
  from created_facts [OF c] show ?thesis
    by (simp add: m0 consistent_def pending_def)
qed

lemma create_Inr:
  assumes "coroutine_create code a sz stack memalign f arg ret = Inr (chan, m0)"
  shows "\<exists>block' m. memalign = Some block' \<and>
           coroutine_create_given_memory code a sz stack f arg block' 524288 ret = Inr (chan, m) \<and>
           m0 = m\<lparr>channel := (channel m)\<lparr>free_after := ptr_of block',
                                          free_func := Some libc_free\<rparr>\<rparr>"
  using assms by (auto simp: coroutine_create_def split: option.splits sum.splits)

lemma first_slice_state:
  assumes "step code \<lparr>channel = \<lparr>context_inactive = User ret, func = Some f, val = not_filled,
                                 free_after = NULL, free_func = None\<rparr>,
                      running = User (f arg), active = Child, trace = [Entered arg]\<rparr> = Inr m"
  shows "active m = Parent \<and> running m = User ret \<and>
         free_after (channel m) = NULL \<and> free_func (channel m) = None \<and>
         (case code (f arg) of
            Yield_to p s' \<Rightarrow>
              context_inactive (channel m) = User s' \<and> func (channel m) = Some f \<and>
              val (channel m) = p \<and>
              trace m = [Entered arg, Yielded Child p, Swapped Child]
          | From k \<Rightarrow>
              context_inactive (channel m) = In_from k \<and> func (channel m) = Some f \<and>
              val (channel m) = not_filled \<and>
              trace m = [Entered arg, Swapped Child]
          | Coroutine_switch s' \<Rightarrow>
              context_inactive (channel m) = User s' \<and> func (channel m) = Some f \<and>
              val (channel m) = not_filled \<and>
              trace m = [Entered arg, Swapped Child]
          | Close_and_join s' \<Rightarrow>
              context_inactive (channel m) = In_close_and_join s' \<and>
              func (channel m) = Some f \<and> val (channel m) = NULL \<and>
              trace m = [Entered arg, Yielded Child NULL, Swapped Child]
          | Return \<Rightarrow>
              context_inactive (channel m) = In_springboard \<and> func (channel m) = None \<and>
              val (channel m) = not_filled \<and>
              trace m = [Entered arg, Finished, Swapped Child])"
  using assms unfolding first_slice by (auto split: call.splits)

lemma run_hooks:
  "run code n m = Inr m' \<Longrightarrow> free_func (channel m) = None \<and> free_after (channel m) = NULL \<and> released (trace m) = [] \<Longrightarrow>
     free_func (channel m') = None \<and> free_after (channel m') = NULL \<and> released (trace m') = []"
  by (rule run_invariant [where P = "\<lambda>m. free_func (channel m) = None \<and> free_after (channel m) = NULL \<and> released (trace m) = []"])
     (auto dest: step_hooks step_released)

subsection \<open>Where the record is placed\<close>

lemma align_pow2: "\<exists>k. STACK_ALIGNMENT a = 2 ^ k"
proof (cases a)
  case AVR
  then show ?thesis by (auto intro: exI [of _ 0])
next
  case ARM
  then show ?thesis by (auto intro: exI [of _ 3])
next
  case SH4
  then show ?thesis by (auto intro: exI [of _ 3])
next
  case I386
  then show ?thesis by (auto intro: exI [of _ 4])
next
  case M68K
  then show ?thesis by (auto intro: exI [of _ 4])
qed (auto intro: exI [of _ 6])

lemma mask_down: "(w :: 'a::len word) AND of_int (NOT (2 ^ k - 1)) = push_bit k (drop_bit k w)"
proof -
  have "(2 :: int) ^ k - 1 = mask k" by (simp add: mask_eq_exp_minus_1)
  then show ?thesis
    by (auto intro!: bit_eqI simp: bit_simps)
qed

lemma unat_round_down:
  "unat (push_bit k (drop_bit k (w :: 'a::len word))) = (unat w div 2 ^ k) * 2 ^ k"
proof -
  have "(unat w div 2 ^ k) * 2 ^ k \<le> unat w" by simp
  also have "unat w < 2 ^ LENGTH('a)" by simp
  finally have "(unat w div 2 ^ k) * 2 ^ k < 2 ^ LENGTH('a)" .
  then have "take_bit LENGTH('a) ((unat w div 2 ^ k) * 2 ^ k) = (unat w div 2 ^ k) * 2 ^ k"
    by (rule take_bit_nat_eq_self)
  moreover have "unat (push_bit k (drop_bit k w)) =
      take_bit LENGTH('a) (push_bit k (drop_bit k (unat w)))"
    by (simp only: unsigned_push_bit_eq unat_drop_bit_eq)
  moreover have "push_bit k (drop_bit k (unat w)) = (unat w div 2 ^ k) * 2 ^ k"
    by (simp only: push_bit_eq_mult drop_bit_eq_div)
  ultimately show ?thesis by simp
qed

lemma channel_offset_round_down:
  "unat (channel_offset a sz blocksize) =
     (unat (blocksize - sz) div nat (STACK_ALIGNMENT a)) * nat (STACK_ALIGNMENT a)"
proof -
  obtain k where k: "STACK_ALIGNMENT a = 2 ^ k" using align_pow2 by blast
  then have n: "nat (STACK_ALIGNMENT a) = 2 ^ k" by (simp add: nat_power_eq)
  have "channel_offset a sz blocksize = push_bit k (drop_bit k (blocksize - sz))"
    by (simp only: channel_offset_def k mask_down)
  then show ?thesis by (simp only: n unat_round_down)
qed

lemma channel_offset_inside:
  assumes "sz \<le> blocksize"
  shows "unat (channel_offset a sz blocksize) + unat sz \<le> unat blocksize"
proof -
  have "unat (channel_offset a sz blocksize) \<le> unat (blocksize - sz)"
    unfolding channel_offset_round_down by simp
  also have "unat (blocksize - sz) = unat blocksize - unat sz"
    using assms by (simp add: unat_sub)
  finally show ?thesis using assms by (simp add: word_le_nat_alt)
qed

lemma aligned_push_bit: "unat (push_bit k (z :: 'a::len word)) mod 2 ^ k = 0"
proof -
  have "unat (push_bit k z) = take_bit LENGTH('a) (push_bit k (unat z))"
    by (simp only: unsigned_push_bit_eq)
  also have "\<dots> = (unat z * 2 ^ k) mod 2 ^ LENGTH('a)"
    by (simp only: push_bit_eq_mult take_bit_eq_mod)
  finally have u: "unat (push_bit k z) = (unat z * 2 ^ k) mod 2 ^ LENGTH('a)" .
  have "(2 :: nat) ^ k dvd (unat z * 2 ^ k) mod 2 ^ LENGTH('a)"
  proof (cases "k \<le> LENGTH('a)")
    case True
    then have "(2 :: nat) ^ k dvd 2 ^ LENGTH('a)" by (simp add: le_imp_power_dvd)
    then show ?thesis by (simp add: dvd_mod)
  next
    case False
    then have "(2 :: nat) ^ LENGTH('a) dvd 2 ^ k" by (simp add: le_imp_power_dvd)
    then have "(2 :: nat) ^ LENGTH('a) dvd unat z * 2 ^ k" by (rule dvd_mult)
    then show ?thesis by simp
  qed
  then show ?thesis by (simp add: u)
qed

lemma aligned_word:
  assumes "unat (w :: 'a::len word) mod 2 ^ k = 0"
  shows "w = push_bit k (drop_bit k w)"
proof -
  have "unat (push_bit k (drop_bit k w)) = (unat w div 2 ^ k) * 2 ^ k"
    by (rule unat_round_down)
  also have "\<dots> = unat w" using assms by (simp add: mod_0_imp_dvd)
  finally show ?thesis by (simp add: word_unat_eq_iff)
qed

lemma record_aligned:
  assumes "unat block mod nat (STACK_ALIGNMENT a) = 0"
  shows "unat (block + channel_offset a sz blocksize) mod nat (STACK_ALIGNMENT a) = 0"
proof -
  obtain k where k: "STACK_ALIGNMENT a = 2 ^ k" using align_pow2 by blast
  then have n: "nat (STACK_ALIGNMENT a) = 2 ^ k" by (simp add: nat_power_eq)
  have o: "channel_offset a sz blocksize = push_bit k (drop_bit k (blocksize - sz))"
    by (simp only: channel_offset_def k mask_down)
  from assms have "block = push_bit k (drop_bit k block)"
    unfolding n by (rule aligned_word)
  then have "block + channel_offset a sz blocksize =
      push_bit k (drop_bit k block + drop_bit k (blocksize - sz))"
    unfolding o by (simp add: push_bit_add)
  then show ?thesis by (simp only: n aligned_push_bit)
qed

subsection \<open>What from takes, and who is alive\<close>

lemma from_take_effect:
  "(func (channel t) = None \<longrightarrow>
      running (from_take ret t) = User (ret NULL) \<and>
      trace (from_take ret t) =
        trace t @ (case free_func (channel t) of None \<Rightarrow> []
                   | Some f \<Rightarrow> [Released (free_after (channel t))]) @ [Got (active t) NULL] \<and>
      channel (from_take ret t) = channel t \<and> active (from_take ret t) = active t) \<and>
   (func (channel t) \<noteq> None \<longrightarrow>
      running (from_take ret t) = User (ret (val (channel t))) \<and>
      trace (from_take ret t) = trace t @ [Got (active t) (val (channel t))] \<and>
      channel (from_take ret t) = (channel t)\<lparr>val := not_filled\<rparr> \<and>
      active (from_take ret t) = active t)"
  by (auto simp: from_take_def release_hook_def Let_def split: option.splits)

lemma run_inv: "run code n m = Inr m' \<Longrightarrow> consistent m \<Longrightarrow> consistent m'"
  by (rule run_invariant [where P = consistent]) (auto dest: step_inv)

lemma created_inv:
  assumes "coroutine_create_given_memory code a sz stack f arg block blocksize ret = Inr (chan, m0) \<or>
           coroutine_create code a sz stack memalign f arg ret = Inr (chan, m0)"
  shows "consistent m0 \<and> pending m0"
  using assms by (auto dest: created_facts created_facts')

lemma alive_of_inv:
  assumes "consistent m" and "running m = User s" and "context_inactive (channel m) = In_from k"
  shows "func (channel m) \<noteq> None \<and> released (trace m) = []"
  using assms by (auto simp: consistent_def split: if_splits)

lemma dead_forever:
  assumes "run code n c = Inr d" and "func (channel c) = None" and "active c = Parent"
      and "context_inactive (channel c) = In_springboard"
  shows "func (channel d) = None \<and>
         (if active d = Parent then context_inactive (channel d) = In_springboard
          else running d = In_springboard)"
proof -
  from assms(2-4) have "consistent c" by (simp add: consistent_def)
  with assms(1) have "consistent d" by (rule run_inv)
  moreover from assms(1,2) have "func (channel d) = None" by (rule run_func_None)
  ultimately show ?thesis by (simp add: consistent_def)
qed

subsection \<open>Evaluating runs, and the steps of close_and_join\<close>

lemma run_numeral:
  "run code (numeral k) m =
     (case step code m of Inl h \<Rightarrow> Inl h | Inr m' \<Rightarrow> run code (pred_numeral k) m')"
  by (simp add: numeral_eq_Suc)

lemma alive_of_inv':
  assumes "consistent m" and "running m = User s" and "context_inactive (channel m) \<noteq> In_springboard"
  shows "func (channel m) \<noteq> None \<and> released (trace m) = []"
  using assms by (auto simp: consistent_def split: if_splits)

lemma inv_released: "consistent m \<Longrightarrow> func (channel m) \<noteq> None \<Longrightarrow> released (trace m) = []"
  by (auto simp: consistent_def)






subsection \<open>Delivery\<close>

lemma run_pending: "run code n m = Inr m' \<Longrightarrow> pending m \<Longrightarrow> pending m'"
  by (rule run_invariant [where P = pending]) (auto dest: step_pending)

lemma rendezvous:
  assumes "running m = User s" and "code s = Yield_to p s'"
      and "context_inactive (channel m) = In_from k \<or>
           (\<exists>s1. context_inactive (channel m) = User s1 \<and> code s1 = From k \<and> p \<noteq> not_filled)"
      and "func (channel m) \<noteq> None" and "released (trace m) = []"
  shows "\<exists>m2. run code 2 m = Inr m2 \<and> running m2 = User (k p) \<and>
           active m2 = peer (active m) \<and>
           trace m2 = trace m @ [Yielded (active m) p, Swapped (active m),
                                 Got (peer (active m)) p] \<and>
           val (channel m2) = not_filled"
proof -
  let ?m1 = "yield_to p (User s') m"
  have 1: "step code m = Inr ?m1"
    using assms by (simp add: step_def deref_def)
  have 2: "step code ?m1 = Inr (from_take k ?m1)"
    using assms(3-5)
    by (auto simp: step_def deref_def from_channel_def yield_to_def SWAP_CONTEXT_def
          released_append)
  have "run code (Suc (Suc 0)) m = Inr (from_take k ?m1)"
    by (simp only: run.simps 1 2 sum.case)
  moreover have "(2 :: nat) = Suc (Suc 0)" by simp
  ultimately have r: "run code 2 m = Inr (from_take k ?m1)" by (simp only:)
  have "running (from_take k ?m1) = User (k p) \<and>
        active (from_take k ?m1) = peer (active m) \<and>
        trace (from_take k ?m1) = trace m @ [Yielded (active m) p, Swapped (active m),
                                 Got (peer (active m)) p] \<and>
        val (channel (from_take k ?m1)) = not_filled"
    using assms(4) by (auto simp: yield_to_def SWAP_CONTEXT_def from_take_def)
  with r show ?thesis by blast
qed

lemma step_slot:
  assumes "step code m = Inr m'"
  shows "(val (channel m') = val (channel m) \<and> yielded (trace m') = yielded (trace m) \<and>
          got (trace m') = got (trace m)) \<or>
         (\<exists>p. trace m' = trace m @ [Yielded (active m) p, Swapped (active m)] \<and>
              val (channel m') = p) \<or>
         (trace m' = trace m @ [Got (active m) (val (channel m))] \<and>
          val (channel m') = not_filled)"
  using assms
  by (auto simp: ops_defs Let_def yielded_append got_append
        split: frame.splits call.splits party.splits if_splits option.splits)

lemma sentinel_returned:
  assumes "running m = In_from k" and "func (channel m) \<noteq> None"
      and "val (channel m) = not_filled" and "released (trace m) = []"
  shows "\<exists>m'. step code m = Inr m' \<and> running m' = User (k not_filled) \<and>
              trace m' = trace m @ [Got (active m) not_filled]"
  using assms by (auto simp: step_def deref_def from_take_def)

subsection \<open>The threads, step by step\<close>

lemma run_pt_numeral:
  "run_pt code (numeral k) m =
     (case step_pt code m of Inl h \<Rightarrow> Inl h | Inr m' \<Rightarrow> run_pt code (pred_numeral k) m')"
  by (simp add: numeral_eq_Suc)

lemmas pt_defs = step_pt_def deref_pt_def yield_to_pt_def from_pt_def from_take_pt_def
  coroutine_switch_pt_def close_and_join_pt_def springboard_return_def context_switch_def
  channel_join_and_cleanup_def goes_on_def seen_def side_def place_def

lemma released_as_none: "released (map (released_as b) es) = [] \<longleftrightarrow> released es = []"
  by (induction es rule: released.induct) simp_all

lemma step_as_machine:
  assumes "consistent (as_machine b m)"
  shows "step code (as_machine b m) = as_result b (step_pt code m)"
  using assms
  by (auto simp: consistent_def as_machine_def as_result_def ops_defs pt_defs Let_def
        released_as_none
        split: frame.splits call.splits party.splits if_splits option.splits)

lemma step_pt_consistent:
  assumes "consistent (as_machine b m)" "step_pt code m = Inr m'"
  shows "consistent (as_machine b m')"
proof -
  from assms have "step code (as_machine b m) = Inr (as_machine b m')"
    by (simp add: step_as_machine as_result_def)
  then show ?thesis using assms(1) by (rule step_inv)
qed

lemma run_as_machine:
  "consistent (as_machine b m) \<Longrightarrow> run code n (as_machine b m) = as_result b (run_pt code n m)"
proof (induction n arbitrary: m)
  case 0
  then show ?case by (simp add: as_result_def)
next
  case (Suc n)
  show ?case
  proof (cases "step_pt code m")
    case (Inl h)
    with Suc.prems show ?thesis by (simp add: step_as_machine as_result_def)
  next
    case (Inr m')
    with Suc.prems have "consistent (as_machine b m')" by (rule step_pt_consistent)
    then have "run code n (as_machine b m') = as_result b (run_pt code n m')" by (rule Suc.IH)
    with Inr Suc.prems show ?thesis by (simp add: step_as_machine as_result_def)
  qed
qed

lemma springboard_pt_start:
  "springboard_pt \<lparr>channel_pt = \<lparr>thread = Zeroed, in_child = True, func_pt = Some f,
                                    value_pt = arg\<rparr>,
                    parent_thread = User ret, malloced = p, trace_pt = []\<rparr> =
   Inr \<lparr>channel_pt = \<lparr>thread = User (f arg), in_child = True, func_pt = Some f,
                       value_pt = not_filled\<rparr>,
        parent_thread = User ret, malloced = p, trace_pt = [Entered arg]\<rparr>"
  by (simp add: springboard_pt_def goes_on_def seen_def)

lemma step_hooks_set:
  assumes "step code m = Inr m'" "func (channel m) \<noteq> None"
  shows "step code (m\<lparr>channel := (channel m)\<lparr>free_after := b, free_func := Some libc_free\<rparr>\<rparr>) =
         Inr (m'\<lparr>channel := (channel m')\<lparr>free_after := b, free_func := Some libc_free\<rparr>\<rparr>)"
  using assms
  by (auto simp: ops_defs Let_def
        split: frame.splits call.splits party.splits if_splits option.splits)

lemma create_as_machine:
  assumes "coroutine_create code a sz stack memalign f arg ret = Inr (chan, m0)"
  shows "\<exists>block pm0. memalign = Some block \<and>
           coroutine_create_pt code (Some chan') f arg ret = Inr (chan', pm0) \<and>
           as_machine (ptr_of block) pm0 = m0 \<and> consistent m0"
proof -
  from create_Inr [OF assms] obtain block m where
    mem: "memalign = Some block"
    and c: "coroutine_create_given_memory code a sz stack f arg block 524288 ret = Inr (chan, m)"
    and m0: "m0 = m\<lparr>channel := (channel m)\<lparr>free_after := ptr_of block,
                                            free_func := Some libc_free\<rparr>\<rparr>"
    by blast
  let ?n = "\<lparr>channel = \<lparr>context_inactive = User ret, func = Some f, val = not_filled,
                           free_after = NULL, free_func = None\<rparr>,
               running = User (f arg), active = Child, trace = [Entered arg]\<rparr>"
  let ?p = "\<lparr>channel_pt = \<lparr>thread = User (f arg), in_child = True, func_pt = Some f,
                       value_pt = not_filled\<rparr>,
        parent_thread = User ret, malloced = ptr_of chan', trace_pt = [Entered arg]\<rparr>"
  from create_given_memory_Inr [OF c] have st: "step code ?n = Inr m" by simp
  have "step code (?n\<lparr>channel := (channel ?n)\<lparr>free_after := ptr_of block, free_func := Some libc_free\<rparr>\<rparr>) = Inr m0"
    unfolding m0 by (rule step_hooks_set [OF st]) simp
  moreover have am: "?n\<lparr>channel := (channel ?n)\<lparr>free_after := ptr_of block, free_func := Some libc_free\<rparr>\<rparr> = as_machine (ptr_of block) ?p"
    by (simp add: as_machine_def place_def side_def)
  moreover have cons: "consistent (as_machine (ptr_of block) ?p)"
    by (simp add: as_machine_def place_def side_def consistent_def)
  ultimately have "as_result (ptr_of block) (step_pt code ?p) = Inr m0"
    by (simp only: step_as_machine [OF cons])
  then obtain pm0 where sp: "step_pt code ?p = Inr pm0" and eq: "as_machine (ptr_of block) pm0 = m0"
    by (auto simp: as_result_def split: sum.splits)
  have "coroutine_create_pt code (Some chan') f arg ret = Inr (chan', pm0)"
    by (simp add: coroutine_create_pt_def springboard_pt_start sp)
  moreover from created_facts' [OF assms] have "consistent m0" by simp
  ultimately show ?thesis using mem eq by blast
qed


lemma released_filtered: "released (filter no_release es) = []"
  by (induction es rule: released.induct) simp_all

lemma step_as_given_machine:
  assumes "consistent (as_given_machine m)"
  shows "step_pt code m = Inl Use_after_free \<or>
         step code (as_given_machine m) = as_given_result (step_pt code m)"
  using assms
  by (auto simp: consistent_def as_given_machine_def as_given_result_def ops_defs pt_defs Let_def
        released_filtered
        split: frame.splits call.splits party.splits if_splits option.splits)

lemma run_as_given_machine:
  "consistent (as_given_machine m) \<Longrightarrow>
     run_pt code n m = Inl Use_after_free \<or>
     run code n (as_given_machine m) = as_given_result (run_pt code n m)"
proof (induction n arbitrary: m)
  case 0
  then show ?case by (simp add: as_given_result_def)
next
  case (Suc n)
  from step_as_given_machine [OF Suc.prems, of code]
  show ?case
  proof
    assume "step_pt code m = Inl Use_after_free"
    then show ?thesis by simp
  next
    assume st: "step code (as_given_machine m) = as_given_result (step_pt code m)"
    show ?thesis
    proof (cases "step_pt code m")
      case (Inl h)
      with st show ?thesis by (simp add: as_given_result_def)
    next
      case (Inr m')
      with st have s': "step code (as_given_machine m) = Inr (as_given_machine m')"
        by (simp add: as_given_result_def)
      then have "consistent (as_given_machine m')" using Suc.prems by (rule step_inv)
      from Suc.IH [OF this] Inr s' show ?thesis by simp
    qed
  qed
qed

lemma create_as_given_machine:
  assumes "coroutine_create_given_memory code a sz stack f arg block blocksize ret = Inr (chan, m0)"
  shows "\<exists>pm0. coroutine_create_pt code (Some chan') f arg ret = Inr (chan', pm0) \<and>
           as_given_machine pm0 = m0 \<and> consistent m0"
proof -
  let ?n = "\<lparr>channel = \<lparr>context_inactive = User ret, func = Some f, val = not_filled,
                           free_after = NULL, free_func = None\<rparr>,
               running = User (f arg), active = Child, trace = [Entered arg]\<rparr>"
  let ?p = "\<lparr>channel_pt = \<lparr>thread = User (f arg), in_child = True, func_pt = Some f,
                       value_pt = not_filled\<rparr>,
        parent_thread = User ret, malloced = ptr_of chan', trace_pt = [Entered arg]\<rparr>"
  from create_given_memory_Inr [OF assms] have st: "step code ?n = Inr m0" by simp
  have am: "?n = as_given_machine ?p"
    by (simp add: as_given_machine_def place_def side_def)
  have cons: "consistent (as_given_machine ?p)"
    by (simp add: as_given_machine_def place_def side_def consistent_def)
  have nf: "step_pt code ?p \<noteq> Inl Use_after_free"
    by (auto simp: pt_defs Let_def split: call.splits)
  from step_as_given_machine [OF cons, of code] nf st am
  have "as_given_result (step_pt code ?p) = Inr m0" by simp
  then obtain pm0 where sp: "step_pt code ?p = Inr pm0" and eq: "as_given_machine pm0 = m0"
    by (auto simp: as_given_result_def split: sum.splits)
  have "coroutine_create_pt code (Some chan') f arg ret = Inr (chan', pm0)"
    by (simp add: coroutine_create_pt_def springboard_pt_start sp)
  moreover from created_facts [OF assms] have "consistent m0" by simp
  ultimately show ?thesis using eq by blast
qed

lemma step_pt_freed:
  "step_pt code m = Inr m' \<Longrightarrow> freed_only_dead m \<Longrightarrow> freed_only_dead m'"
  by (auto simp: freed_only_dead_def pt_defs Let_def released_append
        split: frame.splits call.splits party.splits if_splits option.splits sum.splits)

lemma step_pt_fault:
  "step_pt code m = Inl Use_after_free \<Longrightarrow> released (trace_pt m) \<noteq> []"
  by (auto simp: pt_defs Let_def
        split: frame.splits call.splits party.splits if_splits option.splits sum.splits)

lemma run_pt_fault:
  "run_pt code n m = Inl Use_after_free \<Longrightarrow> freed_only_dead m \<Longrightarrow>
     \<exists>k m'. k < n \<and> run_pt code k m = Inr m' \<and> released (trace_pt m') \<noteq> [] \<and>
            func_pt (channel_pt m') = None"
proof (induction n arbitrary: m)
  case 0
  then show ?case by simp
next
  case (Suc n)
  show ?case
  proof (cases "step_pt code m")
    case (Inl h)
    with Suc.prems(1) have "step_pt code m = Inl Use_after_free" by simp
    then have "released (trace_pt m) \<noteq> []" by (rule step_pt_fault)
    with Suc.prems(2) have "run_pt code 0 m = Inr m \<and> released (trace_pt m) \<noteq> [] \<and>
        func_pt (channel_pt m) = None"
      by (simp add: freed_only_dead_def)
    then show ?thesis by blast
  next
    case (Inr m')
    with Suc.prems have r: "run_pt code n m' = Inl Use_after_free" and f: "freed_only_dead m'"
      by (auto dest: step_pt_freed)
    from Suc.IH [OF r f] obtain k m'' where
      k: "k < n" "run_pt code k m' = Inr m''" "released (trace_pt m'') \<noteq> []"
         "func_pt (channel_pt m'') = None"
      by blast
    with Inr have "Suc k < Suc n \<and> run_pt code (Suc k) m = Inr m'' \<and>
        released (trace_pt m'') \<noteq> [] \<and> func_pt (channel_pt m'') = None"
      by simp
    then show ?thesis by blast
  qed
qed

section \<open>The claims\<close>

text \<open>
  C1. A call of \<^verbatim>\<open>from\<close> (user code in state \<open>s\<close> with \<open>code s = From ret\<close>, on a channel
  whose memory has not been released): when the entry is not empty and the slot holds the
  sentinel, the call performs exactly one swap (the peer runs, the caller is parked inside
  \<^verbatim>\<open>from\<close>) and, in whatever machine \<open>m2\<close> the caller is resumed, goes on with the rest of
  \<^verbatim>\<open>from\<close> without another swap; otherwise it goes on with the rest at once. The rest:
  when the entry is empty, the release hook is called if one is recorded and \<^verbatim>\<open>NULL\<close> is
  returned; otherwise the content of the slot is returned and the slot is set to the
  sentinel.
\<close>

theorem from_behaviour:
  assumes "running m = User s" and "code s = From ret" and "released (trace m) = []"
      and "running m2 = In_from ret" and "released (trace m2) = []"
  shows "(func (channel m) \<noteq> None \<and> val (channel m) = not_filled \<longrightarrow>
            (\<exists>m1. step code m = Inr m1 \<and>
                  trace m1 = trace m @ [Swapped (active m)] \<and>
                  swaps (trace m1) = Suc (swaps (trace m)) \<and>
                  running m1 = context_inactive (channel m) \<and>
                  active m1 = peer (active m) \<and>
                  channel m1 = (channel m)\<lparr>context_inactive := In_from ret\<rparr>) \<and>
            (\<exists>m3. step code m2 = Inr m3 \<and> m3 = from_take ret m2 \<and>
                  swaps (trace m3) = swaps (trace m2))) \<and>
         (\<not> (func (channel m) \<noteq> None \<and> val (channel m) = not_filled) \<longrightarrow>
            (\<exists>m3. step code m = Inr m3 \<and> m3 = from_take ret m \<and>
                  swaps (trace m3) = swaps (trace m))) \<and>
         (\<forall>t. func (channel t) = None \<longrightarrow>
            running (from_take ret t) = User (ret NULL) \<and>
            trace (from_take ret t) =
              trace t @ (case free_func (channel t) of None \<Rightarrow> []
                         | Some f \<Rightarrow> [Released (free_after (channel t))]) @
              [Got (active t) NULL] \<and>
            channel (from_take ret t) = channel t \<and> active (from_take ret t) = active t) \<and>
         (\<forall>t. func (channel t) \<noteq> None \<longrightarrow>
            running (from_take ret t) = User (ret (val (channel t))) \<and>
            trace (from_take ret t) = trace t @ [Got (active t) (val (channel t))] \<and>
            channel (from_take ret t) = (channel t)\<lparr>val := not_filled\<rparr> \<and>
            active (from_take ret t) = active t)"
proof -
  have sw: "\<And>t. swaps (trace (from_take ret t)) = swaps (trace t)"
    by (simp add: from_take_def release_hook_def Let_def swaps_append split: option.splits)
  have a: "func (channel m) \<noteq> None \<and> val (channel m) = not_filled \<longrightarrow>
            (\<exists>m1. step code m = Inr m1 \<and>
                  trace m1 = trace m @ [Swapped (active m)] \<and>
                  swaps (trace m1) = Suc (swaps (trace m)) \<and>
                  running m1 = context_inactive (channel m) \<and>
                  active m1 = peer (active m) \<and>
                  channel m1 = (channel m)\<lparr>context_inactive := In_from ret\<rparr>)"
    using assms(1-3)
    by (auto simp: step_def deref_def from_channel_def SWAP_CONTEXT_def swaps_append)
  have b: "step code m2 = Inr (from_take ret m2)"
    using assms(4,5) by (simp add: step_def deref_def)
  have c: "\<not> (func (channel m) \<noteq> None \<and> val (channel m) = not_filled) \<longrightarrow>
            step code m = Inr (from_take ret m)"
    using assms(1-3) by (auto simp: step_def deref_def from_channel_def)
  from a b c sw from_take_effect [of _ ret] show ?thesis by blast
qed

theorem from_behaviour_witness:
  "running slot_emptied = User Consume \<and>
   cotests Consume = From (\<lambda>p. if p = NULL then Done else Consume) \<and>
   released (trace slot_emptied) = [] \<and>
   running slot_refilled = In_from (\<lambda>p. if p = NULL then Done else Consume) \<and>
   released (trace slot_refilled) = [] \<and>
   func (channel slot_emptied) \<noteq> None \<and> val (channel slot_emptied) = not_filled \<and>
   run cotests 2 slot_emptied = Inr slot_refilled \<and>
   func (channel slot_refilled) \<noteq> None \<and> val (channel slot_refilled) = Addr 2 \<and>
   step cotests slot_refilled =
     Inr (from_take (\<lambda>p. if p = NULL then Done else Consume) slot_refilled) \<and>
   running (from_take (\<lambda>p. if p = NULL then Done else Consume) slot_refilled) = User Consume \<and>
   trace (from_take (\<lambda>p. if p = NULL then Done else Consume) slot_refilled) =
     trace slot_refilled @ [Got Parent (Addr 2)] \<and>
   val (channel (from_take (\<lambda>p. if p = NULL then Done else Consume) slot_refilled)) = not_filled"
proof -
  have h: "running slot_emptied = User Consume"
     "cotests Consume = From (\<lambda>p. if p = NULL then Done else Consume)"
     "released (trace slot_emptied) = []"
     "running slot_refilled = In_from (\<lambda>p. if p = NULL then Done else Consume)"
     "released (trace slot_refilled) = []"
    by (simp_all add: slot_emptied_def slot_refilled_def)
  have r: "run cotests 2 slot_emptied = Inr slot_refilled"
    by (simp add: eval_nat_numeral ops_defs slot_emptied_def slot_refilled_def)
  have f: "func (channel slot_emptied) \<noteq> None \<and> val (channel slot_emptied) = not_filled"
    by (simp add: slot_emptied_def)
  have g: "func (channel slot_refilled) \<noteq> None" "val (channel slot_refilled) = Addr 2"
     "active slot_refilled = Parent"
    by (simp_all add: slot_refilled_def)
  note T = from_behaviour [where code = cotests and m = slot_emptied and s = Consume
      and ret = "\<lambda>p. if p = NULL then Done else Consume" and ?m2.0 = slot_refilled, OF h]
  from T f have "step cotests slot_refilled =
     Inr (from_take (\<lambda>p. if p = NULL then Done else Consume) slot_refilled)"
    by blast
  moreover from T g(1) have
    "running (from_take (\<lambda>p. if p = NULL then Done else Consume) slot_refilled) =
       User (if val (channel slot_refilled) = NULL then Done else Consume) \<and>
     trace (from_take (\<lambda>p. if p = NULL then Done else Consume) slot_refilled) =
       trace slot_refilled @ [Got (active slot_refilled) (val (channel slot_refilled))] \<and>
     channel (from_take (\<lambda>p. if p = NULL then Done else Consume) slot_refilled) =
       (channel slot_refilled)\<lparr>val := not_filled\<rparr>"
    by blast
  ultimately show ?thesis using h r f g by simp
qed

text \<open>
  C2, as stated, fails: a datum placed by \<^verbatim>\<open>yield_to\<close> is lost when the slot is written
  again before a \<^verbatim>\<open>from\<close> takes it. Here the generator \<open>Gen 3\<close> yields the pointer 4 inside
  the constructor, the parent calls \<^verbatim>\<open>close_and_join\<close>, whose \<^verbatim>\<open>yield_to(channel, NULL)\<close>
  overwrites the slot, the generator returns, the parent's \<^verbatim>\<open>from\<close> returns \<^verbatim>\<open>NULL\<close> and the
  parent returns: one datum was placed and none was returned by a \<^verbatim>\<open>from\<close>.
\<close>

theorem single_delivery_counterexample:
  "observed (run_created cotests 4
      (coroutine_create_given_memory cotests X86_64 (56 :: 64 word) 128 (\<lambda>arg. Gen 3) (Addr 99)
         4096 32768 Close_then_consume)) =
     [Entered (Addr 99), Yielded Child (Addr 4), Swapped Child, Yielded Parent NULL,
      Swapped Parent, Finished, Swapped Child, Got Parent NULL] \<and>
   yielded [Entered (Addr 99), Yielded Child (Addr 4), Swapped Child, Yielded Parent NULL,
      Swapped Parent, Finished, Swapped Child, Got Parent NULL] = [4] \<and>
   got [Entered (Addr 99), Yielded Child (Addr 4), Swapped Child, Yielded Parent NULL,
      Swapped Parent, Finished, Swapped Child, Got Parent NULL] = [] \<and>
   run_created cotests 5
      (coroutine_create_given_memory cotests X86_64 (56 :: 64 word) 128 (\<lambda>arg. Gen 3) (Addr 99)
         4096 32768 Close_then_consume) = Inl Parent_returned"
  by (simp add: observed_def run_created_def create_given_memory_eq ops_defs run_numeral Let_def
        channel_offset_def)


text \<open>
  C2, amended. In every machine reached from the creation of a channel, whatever the two
  parties do (data are the pointers other than \<^verbatim>\<open>NULL\<close> and the sentinel):
  the data returned by \<^verbatim>\<open>from\<close> so far are, in order, a subsequence of the data placed by
  \<^verbatim>\<open>yield_to\<close> so far, also when the datum now in the slot is appended to them (no datum
  is returned twice, no datum is returned that was not placed, the datum in the slot is one
  placed and not yet returned). The slot keeps what was placed until the next
  \<^verbatim>\<open>yield_to\<close> overwrites it or the next \<^verbatim>\<open>from\<close> that takes from the slot returns
  exactly it and empties the slot: every step leaves the slot and the data as they are, or
  is a \<^verbatim>\<open>yield_to\<close>, or is a \<^verbatim>\<open>from\<close> returning the content of the slot. A pointer placed
  by \<^verbatim>\<open>yield_to\<close> is returned to the other party within two steps when that party is
  suspended in \<^verbatim>\<open>from\<close>, or is suspended elsewhere and calls \<^verbatim>\<open>from\<close> next. What
  \<^verbatim>\<open>from\<close> returns need not have been placed by anybody: resumed with the slot still
  empty (the other party came back by \<^verbatim>\<open>coroutine_switch\<close>), it returns the address of
  the sentinel.
\<close>

theorem delivered_at_most_once:
  assumes "coroutine_create_given_memory code a sz stack f arg block blocksize ret = Inr (chan, m0) \<or>
           coroutine_create code a sz stack memalign f arg ret = Inr (chan, m0)"
      and "run code n m0 = Inr m"
  shows "subseq (got (trace m)) (yielded (trace m)) \<and>
         subseq (got (trace m) @ slot (val (channel m))) (yielded (trace m)) \<and>
         (\<forall>m'. step code m = Inr m' \<longrightarrow>
            (val (channel m') = val (channel m) \<and> yielded (trace m') = yielded (trace m) \<and>
             got (trace m') = got (trace m)) \<or>
            (\<exists>q. trace m' = trace m @ [Yielded (active m) q, Swapped (active m)] \<and>
                 val (channel m') = q) \<or>
            (trace m' = trace m @ [Got (active m) (val (channel m))] \<and>
             val (channel m') = not_filled)) \<and>
         (running m = User s \<and> code s = Yield_to p s' \<and>
          (context_inactive (channel m) = In_from k \<or>
           (\<exists>s1. context_inactive (channel m) = User s1 \<and> code s1 = From k \<and>
                 p \<noteq> not_filled)) \<longrightarrow>
            (\<exists>m2. run code 2 m = Inr m2 \<and> running m2 = User (k p) \<and>
                  active m2 = peer (active m) \<and>
                  trace m2 = trace m @ [Yielded (active m) p, Swapped (active m),
                                        Got (peer (active m)) p] \<and>
                  val (channel m2) = not_filled)) \<and>
         (running m = In_from k \<and> func (channel m) \<noteq> None \<and>
          val (channel m) = not_filled \<longrightarrow>
            (\<exists>m'. step code m = Inr m' \<and> running m' = User (k not_filled) \<and>
                  trace m' = trace m @ [Got (active m) not_filled]))"
proof -
  from created_inv [OF assms(1)] have "consistent m0" "pending m0" by simp_all
  with assms(2) have i: "consistent m" and p: "pending m" by (auto intro: run_inv run_pending)
  from p have 2: "subseq (got (trace m) @ slot (val (channel m))) (yielded (trace m))"
    by (simp add: pending_def)
  then have 1: "subseq (got (trace m)) (yielded (trace m))" by (rule subseq_drop_slot)
  have 3: "\<forall>m'. step code m = Inr m' \<longrightarrow>
            (val (channel m') = val (channel m) \<and> yielded (trace m') = yielded (trace m) \<and>
             got (trace m') = got (trace m)) \<or>
            (\<exists>q. trace m' = trace m @ [Yielded (active m) q, Swapped (active m)] \<and>
                 val (channel m') = q) \<or>
            (trace m' = trace m @ [Got (active m) (val (channel m))] \<and>
             val (channel m') = not_filled)"
    using step_slot [where code = code and m = m] by blast
  have 4: "running m = User s \<and> code s = Yield_to p s' \<and>
          (context_inactive (channel m) = In_from k \<or>
           (\<exists>s1. context_inactive (channel m) = User s1 \<and> code s1 = From k \<and>
                 p \<noteq> not_filled)) \<longrightarrow>
            (\<exists>m2. run code 2 m = Inr m2 \<and> running m2 = User (k p) \<and>
                  active m2 = peer (active m) \<and>
                  trace m2 = trace m @ [Yielded (active m) p, Swapped (active m),
                                        Got (peer (active m)) p] \<and>
                  val (channel m2) = not_filled)"
  proof
    assume h: "running m = User s \<and> code s = Yield_to p s' \<and>
          (context_inactive (channel m) = In_from k \<or>
           (\<exists>s1. context_inactive (channel m) = User s1 \<and> code s1 = From k \<and>
                 p \<noteq> not_filled))"
    then have "context_inactive (channel m) \<noteq> In_springboard" by auto
    with i h have al: "func (channel m) \<noteq> None \<and> released (trace m) = []"
      by (intro alive_of_inv' [where s = s]) simp_all
    from h have r: "running m = User s" and c: "code s = Yield_to p s'"
      and x: "context_inactive (channel m) = In_from k \<or>
           (\<exists>s1. context_inactive (channel m) = User s1 \<and> code s1 = From k \<and>
                 p \<noteq> not_filled)" by simp_all
    from al have f: "func (channel m) \<noteq> None" and l: "released (trace m) = []" by simp_all
    show "\<exists>m2. run code 2 m = Inr m2 \<and> running m2 = User (k p) \<and>
                  active m2 = peer (active m) \<and>
                  trace m2 = trace m @ [Yielded (active m) p, Swapped (active m),
                                        Got (peer (active m)) p] \<and>
                  val (channel m2) = not_filled"
      by (rule rendezvous [where code = code and s = s and s' = s', OF r c x f l])
  qed
  have 5: "running m = In_from k \<and> func (channel m) \<noteq> None \<and>
          val (channel m) = not_filled \<longrightarrow>
            (\<exists>m'. step code m = Inr m' \<and> running m' = User (k not_filled) \<and>
                  trace m' = trace m @ [Got (active m) not_filled])"
  proof
    assume h: "running m = In_from k \<and> func (channel m) \<noteq> None \<and>
          val (channel m) = not_filled"
    with i have "released (trace m) = []" by (intro inv_released) simp_all
    with h show "\<exists>m'. step code m = Inr m' \<and> running m' = User (k not_filled) \<and>
                  trace m' = trace m @ [Got (active m) not_filled]"
      by (intro sentinel_returned) simp_all
  qed
  show ?thesis by (intro conjI 1 2 3 4 5)
qed

theorem delivered_at_most_once_witness:
  "coroutine_create_given_memory cotests X86_64 (56 :: 64 word) 128 (\<lambda>arg. Gen 0) (Addr 99)
       4096 32768 Consume =
     Inr (36800, \<lparr>channel = \<lparr>context_inactive = User (Gen 1), func = Some (\<lambda>arg. Gen 0),
                              val = Addr 1, free_after = NULL, free_func = None\<rparr>,
                  running = User Consume, active = Parent,
                  trace = [Entered (Addr 99), Yielded Child (Addr 1), Swapped Child]\<rparr>) \<and>
   run cotests 3 \<lparr>channel = \<lparr>context_inactive = User (Gen 1), func = Some (\<lambda>arg. Gen 0),
                              val = Addr 1, free_after = NULL, free_func = None\<rparr>,
                  running = User Consume, active = Parent,
                  trace = [Entered (Addr 99), Yielded Child (Addr 1), Swapped Child]\<rparr> =
     Inr slot_refilled \<and>
   got (trace slot_refilled) = [1] \<and> slot (val (channel slot_refilled)) = [2] \<and>
   yielded (trace slot_refilled) = [1, 2] \<and> subseq [1, 2 :: nat] [1, 2] \<and>
   observed (run_created cotests 3
      (coroutine_create_given_memory cotests X86_64 (56 :: 64 word) 128 (\<lambda>arg. Hand_off_twice)
         (Addr 99) 4096 32768 Consume)) =
     [Entered (Addr 99), Swapped Child, Swapped Parent, Swapped Child, Got Parent not_filled]"
proof -
  have c: "coroutine_create_given_memory cotests X86_64 (56 :: 64 word) 128 (\<lambda>arg. Gen 0) (Addr 99)
       4096 32768 Consume =
     Inr (36800, \<lparr>channel = \<lparr>context_inactive = User (Gen 1), func = Some (\<lambda>arg. Gen 0),
                              val = Addr 1, free_after = NULL, free_func = None\<rparr>,
                  running = User Consume, active = Parent,
                  trace = [Entered (Addr 99), Yielded Child (Addr 1), Swapped Child]\<rparr>)"
    by (simp add: create_given_memory_eq ops_defs channel_offset_def)
  have r: "run cotests 3 \<lparr>channel = \<lparr>context_inactive = User (Gen 1),
                              func = Some (\<lambda>arg. Gen 0),
                              val = Addr 1, free_after = NULL, free_func = None\<rparr>,
                  running = User Consume, active = Parent,
                  trace = [Entered (Addr 99), Yielded Child (Addr 1), Swapped Child]\<rparr> =
     Inr slot_refilled"
    by (simp add: run_numeral ops_defs Let_def slot_refilled_def)
  have v: "got (trace slot_refilled) = [1]" "slot (val (channel slot_refilled)) = [2]"
    "yielded (trace slot_refilled) = [1, 2]"
    by (simp_all add: slot_refilled_def)
  have n: "observed (run_created cotests 3
      (coroutine_create_given_memory cotests X86_64 (56 :: 64 word) 128 (\<lambda>arg. Hand_off_twice)
         (Addr 99) 4096 32768 Consume)) =
     [Entered (Addr 99), Swapped Child, Swapped Parent, Swapped Child, Got Parent not_filled]"
    by (simp add: observed_def run_created_def create_given_memory_eq ops_defs run_numeral
          Let_def channel_offset_def)
  from delivered_at_most_once [where memalign = None, OF disjI1 [OF c] r] c r v n
  show ?thesis by simp
qed

text \<open>
  C3. The springboard reads the argument from the slot and sets the slot to the sentinel
  before the entry function runs (it starts in state \<open>f arg\<close> with the slot empty); when
  the entry function returns, the springboard sets \<^verbatim>\<open>func\<close> to \<^verbatim>\<open>NULL\<close> and swaps to the
  parent; after that swap the child never runs again: in every later machine either the
  parent is active and the child's saved context is the dead end of the springboard, or
  control has been switched into that dead end, where the next step is
  \<^verbatim>\<open>__builtin_unreachable()\<close>.
\<close>

theorem springboard_steps:
  assumes "func (channel m) = Some f"
      and "active c = Child" and "running c = User s" and "code s = Return"
      and "released (trace c) = []"
  shows "(\<exists>m1. springboard m = Inr m1 \<and>
               running m1 = User (f (val (channel m))) \<and>
               val (channel m1) = not_filled \<and>
               trace m1 = trace m @ [Entered (val (channel m))] \<and>
               func (channel m1) = Some f) \<and>
         (\<exists>c'. step code c = Inr c' \<and>
               func (channel c') = None \<and>
               trace c' = trace c @ [Finished, Swapped Child] \<and>
               active c' = Parent \<and>
               running c' = context_inactive (channel c) \<and>
               context_inactive (channel c') = In_springboard \<and>
               val (channel c') = val (channel c) \<and>
               (\<forall>n d. run code n c' = Inr d \<longrightarrow>
                   func (channel d) = None \<and>
                   (if active d = Parent then context_inactive (channel d) = In_springboard
                    else running d = In_springboard \<and> step code d = Inl Unreachable)))"
proof -
  have a: "\<exists>m1. springboard m = Inr m1 \<and>
               running m1 = User (f (val (channel m))) \<and>
               val (channel m1) = not_filled \<and>
               trace m1 = trace m @ [Entered (val (channel m))] \<and>
               func (channel m1) = Some f"
    using assms(1) by (simp add: springboard_def Let_def)
  have s: "step code c = Inr (springboard_exit c)"
    using assms(2-5) by (simp add: step_def deref_def)
  have e: "func (channel (springboard_exit c)) = None"
     "trace (springboard_exit c) = trace c @ [Finished, Swapped Child]"
     "active (springboard_exit c) = Parent"
     "running (springboard_exit c) = context_inactive (channel c)"
     "context_inactive (channel (springboard_exit c)) = In_springboard"
     "val (channel (springboard_exit c)) = val (channel c)"
    using assms(2) by (simp_all add: springboard_exit_effect)
  have d: "\<forall>n d. run code n (springboard_exit c) = Inr d \<longrightarrow>
                   func (channel d) = None \<and>
                   (if active d = Parent then context_inactive (channel d) = In_springboard
                    else running d = In_springboard \<and> step code d = Inl Unreachable)"
  proof (intro allI impI)
    fix n d
    assume "run code n (springboard_exit c) = Inr d"
    from dead_forever [OF this e(1) e(3) e(5)]
    show "func (channel d) = None \<and>
          (if active d = Parent then context_inactive (channel d) = In_springboard
           else running d = In_springboard \<and> step code d = Inl Unreachable)"
      by (auto simp: step_def)
  qed
  from a s e d show ?thesis by blast
qed

theorem springboard_steps_witness:
  "func (channel \<lparr>channel = \<lparr>context_inactive = User Close, func = Some (\<lambda>arg. Consume),
                               val = Addr 99, free_after = NULL, free_func = None\<rparr>,
                   running = User Close, active = Child, trace = []\<rparr>) = Some (\<lambda>arg. Consume) \<and>
   springboard \<lparr>channel = \<lparr>context_inactive = User Close, func = Some (\<lambda>arg. Consume),
                             val = Addr 99, free_after = NULL, free_func = None\<rparr>,
                 running = User Close, active = Child, trace = []\<rparr> =
     Inr \<lparr>channel = \<lparr>context_inactive = User Close, func = Some (\<lambda>arg. Consume),
                      val = not_filled, free_after = NULL, free_func = None\<rparr>,
          running = User Consume, active = Child, trace = [Entered (Addr 99)]\<rparr> \<and>
   active nil_received = Child \<and> running nil_received = User Done \<and> cotests Done = Return \<and>
   released (trace nil_received) = [] \<and>
   run cotests 2 nil_received =
     Inr \<lparr>channel = \<lparr>context_inactive = In_springboard, func = None, val = not_filled,
                      free_after = NULL, free_func = None\<rparr>,
          running = User Done, active = Parent,
          trace = [Entered (Addr 99), Swapped Child, Yielded Parent NULL, Swapped Parent,
                   Got Child NULL, Finished, Swapped Child]\<rparr>"
proof -
  have h: "func (channel \<lparr>channel = \<lparr>context_inactive = User Close, func = Some (\<lambda>arg. Consume),
                               val = Addr 99, free_after = NULL, free_func = None\<rparr>,
                   running = User Close, active = Child, trace = []\<rparr>) = Some (\<lambda>arg. Consume)"
    "active nil_received = Child" "running nil_received = User Done" "cotests Done = Return"
    "released (trace nil_received) = []"
    by (simp_all add: nil_received_def)
  note T = springboard_steps [where code = cotests and s = Done, OF h]
  have "springboard \<lparr>channel = \<lparr>context_inactive = User Close, func = Some (\<lambda>arg. Consume),
                             val = Addr 99, free_after = NULL, free_func = None\<rparr>,
                 running = User Close, active = Child, trace = []\<rparr> =
     Inr \<lparr>channel = \<lparr>context_inactive = User Close, func = Some (\<lambda>arg. Consume),
                      val = not_filled, free_after = NULL, free_func = None\<rparr>,
          running = User Consume, active = Child, trace = [Entered (Addr 99)]\<rparr>"
    by (simp add: springboard_def)
  moreover have "run cotests 2 nil_received =
     Inr \<lparr>channel = \<lparr>context_inactive = In_springboard, func = None, val = not_filled,
                      free_after = NULL, free_func = None\<rparr>,
          running = User Done, active = Parent,
          trace = [Entered (Addr 99), Swapped Child, Yielded Parent NULL, Swapped Parent,
                   Got Child NULL, Finished, Swapped Child]\<rparr>"
    by (simp add: eval_nat_numeral ops_defs nil_received_def)
  ultimately show ?thesis using T h by simp
qed

text \<open>
  C4. In every machine reached from the creation of a channel: when the running party
  (parent or child) calls \<^verbatim>\<open>yield_to(channel, NULL)\<close> while the other party is suspended
  in \<^verbatim>\<open>from\<close>, the next two steps are the swap and the rest of that \<^verbatim>\<open>from\<close>, which
  returns \<^verbatim>\<open>NULL\<close> to the other party (it goes on in state \<open>k NULL\<close>).
\<close>

theorem nil_is_end_of_stream:
  assumes "coroutine_create_given_memory code a sz stack f arg block blocksize ret = Inr (chan, m0) \<or>
           coroutine_create code a sz stack memalign f arg ret = Inr (chan, m0)"
      and "run code n m0 = Inr m"
      and "running m = User s" and "code s = Yield_to NULL s'"
      and "context_inactive (channel m) = In_from k"
  shows "\<exists>m1 m2. step code m = Inr m1 \<and> step code m1 = Inr m2 \<and>
           running m1 = In_from k \<and> active m1 = peer (active m) \<and>
           running m2 = User (k NULL) \<and> active m2 = peer (active m) \<and>
           trace m2 = trace m @ [Yielded (active m) NULL, Swapped (active m),
                                 Got (peer (active m)) NULL] \<and>
           val (channel m2) = not_filled \<and>
           func (channel m2) = func (channel m) \<and> func (channel m) \<noteq> None \<and>
           context_inactive (channel m2) = User s'"
proof -
  from created_inv [OF assms(1)] have "consistent m0" by simp
  with assms(2) have "consistent m" by (rule run_inv)
  from alive_of_inv [OF this assms(3) assms(5)]
  have alive: "func (channel m) \<noteq> None" "released (trace m) = []" by simp_all
  let ?m1 = "yield_to NULL (User s') m"
  have 1: "step code m = Inr ?m1"
    using assms(3,4) alive by (simp add: step_def deref_def)
  have 2: "step code ?m1 = Inr (from_take k ?m1)"
    using assms(5) alive
    by (simp add: step_def deref_def yield_to_def SWAP_CONTEXT_def released_append)
  have p: "running ?m1 = In_from k" "active ?m1 = peer (active m)"
    using assms(5) by (simp_all add: yield_to_def SWAP_CONTEXT_def)
  have q: "running (from_take k ?m1) = User (k NULL)"
    "active (from_take k ?m1) = peer (active m)"
    "trace (from_take k ?m1) = trace m @ [Yielded (active m) NULL, Swapped (active m),
                                 Got (peer (active m)) NULL]"
    "val (channel (from_take k ?m1)) = not_filled"
    "func (channel (from_take k ?m1)) = func (channel m)"
    "context_inactive (channel (from_take k ?m1)) = User s'"
    using alive by (auto simp: yield_to_def SWAP_CONTEXT_def from_take_def)
  from 1 2 p q alive(1) show ?thesis by blast
qed

theorem nil_is_end_of_stream_witness:
  "coroutine_create_given_memory cotests X86_64 (56 :: 64 word) 128 (\<lambda>arg. Consume) (Addr 99)
       4096 32768 Send_nil = Inr (36800, consumer_waits Send_nil) \<and>
   run cotests 2 (consumer_waits Send_nil) =
     Inr \<lparr>channel = \<lparr>context_inactive = User Done, func = Some (\<lambda>arg. Consume),
                      val = not_filled, free_after = NULL, free_func = None\<rparr>,
          running = User Done, active = Child,
          trace = [Entered (Addr 99), Swapped Child, Yielded Parent NULL, Swapped Parent,
                   Got Child NULL]\<rparr> \<and>
   coroutine_create_given_memory cotests X86_64 (56 :: 64 word) 128 (\<lambda>arg. Hand_off) (Addr 99)
       4096 32768 Consume =
     Inr (36800, \<lparr>channel = \<lparr>context_inactive = User Send_nil, func = Some (\<lambda>arg. Hand_off),
                              val = not_filled, free_after = NULL, free_func = None\<rparr>,
                  running = User Consume, active = Parent,
                  trace = [Entered (Addr 99), Swapped Child]\<rparr>) \<and>
   run cotests 1 \<lparr>channel = \<lparr>context_inactive = User Send_nil, func = Some (\<lambda>arg. Hand_off),
                              val = not_filled, free_after = NULL, free_func = None\<rparr>,
                  running = User Consume, active = Parent,
                  trace = [Entered (Addr 99), Swapped Child]\<rparr> = Inr hand_off_waits \<and>
   run cotests 2 hand_off_waits =
     Inr \<lparr>channel = \<lparr>context_inactive = User Done, func = Some (\<lambda>arg. Hand_off),
                      val = not_filled, free_after = NULL, free_func = None\<rparr>,
          running = User Done, active = Parent,
          trace = [Entered (Addr 99), Swapped Child, Swapped Parent, Yielded Child NULL,
                   Swapped Child, Got Parent NULL]\<rparr>"
proof -
  have c1: "coroutine_create_given_memory cotests X86_64 (56 :: 64 word) 128 (\<lambda>arg. Consume)
       (Addr 99) 4096 32768 Send_nil = Inr (36800, consumer_waits Send_nil)"
    by (simp add: create_given_memory_eq ops_defs channel_offset_def consumer_waits_def)
  have r1: "run cotests 0 (consumer_waits Send_nil) = Inr (consumer_waits Send_nil)"
    by simp
  have h1: "running (consumer_waits Send_nil) = User Send_nil"
     "cotests Send_nil = Yield_to NULL Done"
     "context_inactive (channel (consumer_waits Send_nil)) =
        In_from (\<lambda>p. if p = NULL then Done else Consume)"
    by (simp_all add: consumer_waits_def)
  note T1 = nil_is_end_of_stream [where memalign = None, OF disjI1 [OF c1] r1 h1]
  have c2: "coroutine_create_given_memory cotests X86_64 (56 :: 64 word) 128 (\<lambda>arg. Hand_off)
       (Addr 99) 4096 32768 Consume =
     Inr (36800, \<lparr>channel = \<lparr>context_inactive = User Send_nil, func = Some (\<lambda>arg. Hand_off),
                              val = not_filled, free_after = NULL, free_func = None\<rparr>,
                  running = User Consume, active = Parent,
                  trace = [Entered (Addr 99), Swapped Child]\<rparr>)"
    by (simp add: create_given_memory_eq ops_defs channel_offset_def)
  have r2: "run cotests 1 \<lparr>channel = \<lparr>context_inactive = User Send_nil,
                              func = Some (\<lambda>arg. Hand_off),
                              val = not_filled, free_after = NULL, free_func = None\<rparr>,
                  running = User Consume, active = Parent,
                  trace = [Entered (Addr 99), Swapped Child]\<rparr> = Inr hand_off_waits"
    by (simp add: ops_defs hand_off_waits_def)
  have h2: "running hand_off_waits = User Send_nil"
     "cotests Send_nil = Yield_to NULL Done"
     "context_inactive (channel hand_off_waits) =
        In_from (\<lambda>p. if p = NULL then Done else Consume)"
    by (simp_all add: hand_off_waits_def)
  note T2 = nil_is_end_of_stream [where memalign = None, OF disjI1 [OF c2] r2 h2]
  have e1: "run cotests 2 (consumer_waits Send_nil) =
     Inr \<lparr>channel = \<lparr>context_inactive = User Done, func = Some (\<lambda>arg. Consume),
                      val = not_filled, free_after = NULL, free_func = None\<rparr>,
          running = User Done, active = Child,
          trace = [Entered (Addr 99), Swapped Child, Yielded Parent NULL, Swapped Parent,
                   Got Child NULL]\<rparr>"
    by (simp add: eval_nat_numeral ops_defs consumer_waits_def)
  have e2: "run cotests 2 hand_off_waits =
     Inr \<lparr>channel = \<lparr>context_inactive = User Done, func = Some (\<lambda>arg. Hand_off),
                      val = not_filled, free_after = NULL, free_func = None\<rparr>,
          running = User Done, active = Parent,
          trace = [Entered (Addr 99), Swapped Child, Swapped Parent, Yielded Child NULL,
                   Swapped Child, Got Parent NULL]\<rparr>"
    by (simp add: eval_nat_numeral ops_defs hand_off_waits_def)
  from T1 T2 c1 c2 r2 e1 e2 show ?thesis by simp
qed



text \<open>
  C6, as stated, fails: \<^verbatim>\<open>BOOTSTRAP_CONTEXT\<close> calls the springboard, which calls the entry
  function, and the constructor returns when the child swaps for the first time. With the
  generator \<open>Gen 0\<close> as child the constructor returns after the child's first
  \<^verbatim>\<open>yield_to\<close> (the slot holds the pointer 1); with the child \<open>Done\<close>, which returns at
  once, the entry is already empty when \<^verbatim>\<open>coroutine_create\<close> returns.
\<close>

theorem born_suspended_counterexample:
  "coroutine_create_given_memory cotests X86_64 (56 :: 64 word) 128 (\<lambda>arg. Gen 0) (Addr 99)
       4096 32768 Consume =
     Inr (36800, \<lparr>channel = \<lparr>context_inactive = User (Gen 1), func = Some (\<lambda>arg. Gen 0),
                              val = Addr 1, free_after = NULL, free_func = None\<rparr>,
                  running = User Consume, active = Parent,
                  trace = [Entered (Addr 99), Yielded Child (Addr 1), Swapped Child]\<rparr>) \<and>
   cotests (Gen 0) = Yield_to (Addr 1) (Gen 1) \<and>
   coroutine_create cotests X86_64 (56 :: 64 word) 128 (Some 4096) (\<lambda>arg. Done) (Addr 99) Consume =
     Inr (528320, \<lparr>channel = \<lparr>context_inactive = In_springboard, func = None,
                               val = not_filled, free_after = Addr 4096,
                               free_func = Some libc_free\<rparr>,
                   running = User Consume, active = Parent,
                   trace = [Entered (Addr 99), Finished, Swapped Child]\<rparr>)"
  by (simp add: coroutine_create_def create_given_memory_eq ops_defs channel_offset_def
        ptr_of_def)

text \<open>
  C6, amended. When \<^verbatim>\<open>coroutine_create_given_memory\<close> or \<^verbatim>\<open>coroutine_create\<close> returns to
  the parent, the child has been entered with \<open>arg\<close> and has run its entry function up to
  its first operation on the channel: it is suspended in that operation (its first
  \<^verbatim>\<open>yield_to\<close>, \<^verbatim>\<open>from\<close>, \<^verbatim>\<open>coroutine_switch\<close> or \<^verbatim>\<open>close_and_join\<close>), or it has
  returned and the entry is empty. \<^verbatim>\<open>coroutine_create\<close> differs only in the block it
  allocates and in the release hook it records afterwards.
\<close>

theorem child_runs_to_first_suspension:
  assumes "coroutine_create_given_memory code a sz stack f arg block blocksize ret = Inr (chan, m0) \<or>
           coroutine_create code a sz stack memalign f arg ret = Inr (chan, m0)"
  shows "active m0 = Parent \<and> running m0 = User ret \<and>
         (case code (f arg) of
            Yield_to p s' \<Rightarrow>
              context_inactive (channel m0) = User s' \<and> func (channel m0) = Some f \<and>
              val (channel m0) = p \<and>
              trace m0 = [Entered arg, Yielded Child p, Swapped Child]
          | From k \<Rightarrow>
              context_inactive (channel m0) = In_from k \<and> func (channel m0) = Some f \<and>
              val (channel m0) = not_filled \<and>
              trace m0 = [Entered arg, Swapped Child]
          | Coroutine_switch s' \<Rightarrow>
              context_inactive (channel m0) = User s' \<and> func (channel m0) = Some f \<and>
              val (channel m0) = not_filled \<and>
              trace m0 = [Entered arg, Swapped Child]
          | Close_and_join s' \<Rightarrow>
              context_inactive (channel m0) = In_close_and_join s' \<and>
              func (channel m0) = Some f \<and> val (channel m0) = NULL \<and>
              trace m0 = [Entered arg, Yielded Child NULL, Swapped Child]
          | Return \<Rightarrow>
              context_inactive (channel m0) = In_springboard \<and> func (channel m0) = None \<and>
              val (channel m0) = not_filled \<and>
              trace m0 = [Entered arg, Finished, Swapped Child]) \<and>
         (coroutine_create_given_memory code a sz stack f arg block blocksize ret = Inr (chan, m0)
            \<longrightarrow> chan = block + channel_offset a sz blocksize \<and>
                free_after (channel m0) = NULL \<and> free_func (channel m0) = None) \<and>
         (coroutine_create code a sz stack memalign f arg ret = Inr (chan, m0)
            \<longrightarrow> (\<exists>block'. memalign = Some block' \<and>
                    chan = block' + channel_offset a sz 524288 \<and>
                    free_after (channel m0) = ptr_of block' \<and>
                    free_func (channel m0) = Some libc_free))"
proof -
  let ?entered = "\<lparr>channel = \<lparr>context_inactive = User ret, func = Some f, val = not_filled,
                                 free_after = NULL, free_func = None\<rparr>,
                      running = User (f arg), active = Child, trace = [Entered arg]\<rparr>"
  have P2: "coroutine_create_given_memory code a sz stack f arg block blocksize ret = Inr (chan, m0)
            \<longrightarrow> chan = block + channel_offset a sz blocksize \<and>
                free_after (channel m0) = NULL \<and> free_func (channel m0) = None"
  proof
    assume g: "coroutine_create_given_memory code a sz stack f arg block blocksize ret =
        Inr (chan, m0)"
    from create_given_memory_Inr [OF g] created_facts [OF g]
    show "chan = block + channel_offset a sz blocksize \<and>
                free_after (channel m0) = NULL \<and> free_func (channel m0) = None"
      by simp
  qed
  have P3: "coroutine_create code a sz stack memalign f arg ret = Inr (chan, m0)
            \<longrightarrow> (\<exists>block'. memalign = Some block' \<and>
                    chan = block' + channel_offset a sz 524288 \<and>
                    free_after (channel m0) = ptr_of block' \<and>
                    free_func (channel m0) = Some libc_free)"
  proof
    assume c: "coroutine_create code a sz stack memalign f arg ret = Inr (chan, m0)"
    from create_Inr [OF c] obtain block' m where
      b: "memalign = Some block'"
      and g: "coroutine_create_given_memory code a sz stack f arg block' 524288 ret = Inr (chan, m)"
      and m0: "m0 = m\<lparr>channel := (channel m)\<lparr>free_after := ptr_of block',
                                          free_func := Some libc_free\<rparr>\<rparr>"
      by blast
    from create_given_memory_Inr [OF g] have "chan = block' + channel_offset a sz 524288"
      by simp
    with b m0 show "\<exists>block'. memalign = Some block' \<and>
                    chan = block' + channel_offset a sz 524288 \<and>
                    free_after (channel m0) = ptr_of block' \<and>
                    free_func (channel m0) = Some libc_free"
      by simp
  qed
  from assms have "\<exists>m hooks. step code ?entered = Inr m \<and>
      (m0 = m \<or> m0 = m\<lparr>channel := (channel m)\<lparr>free_after := fst hooks,
                                                   free_func := snd hooks\<rparr>\<rparr>)"
  proof
    assume g: "coroutine_create_given_memory code a sz stack f arg block blocksize ret =
        Inr (chan, m0)"
    from create_given_memory_Inr [OF g] show ?thesis by blast
  next
    assume c: "coroutine_create code a sz stack memalign f arg ret = Inr (chan, m0)"
    from create_Inr [OF c] obtain block' m where
      g: "coroutine_create_given_memory code a sz stack f arg block' 524288 ret = Inr (chan, m)"
      and m0: "m0 = m\<lparr>channel := (channel m)\<lparr>free_after := ptr_of block',
                                          free_func := Some libc_free\<rparr>\<rparr>"
      by blast
    from create_given_memory_Inr [OF g] have "step code ?entered = Inr m" by simp
    with m0 show ?thesis
      by (intro exI [of _ m] exI [of _ "(ptr_of block', Some libc_free)"]) simp
  qed
  then obtain m hooks where st: "step code ?entered = Inr m"
    and m0: "m0 = m \<or> m0 = m\<lparr>channel := (channel m)\<lparr>free_after := fst hooks,
                                                   free_func := snd hooks\<rparr>\<rparr>"
    by blast
  from first_slice_state [OF st] m0
  have P1: "active m0 = Parent \<and> running m0 = User ret \<and>
         (case code (f arg) of
            Yield_to p s' \<Rightarrow>
              context_inactive (channel m0) = User s' \<and> func (channel m0) = Some f \<and>
              val (channel m0) = p \<and>
              trace m0 = [Entered arg, Yielded Child p, Swapped Child]
          | From k \<Rightarrow>
              context_inactive (channel m0) = In_from k \<and> func (channel m0) = Some f \<and>
              val (channel m0) = not_filled \<and>
              trace m0 = [Entered arg, Swapped Child]
          | Coroutine_switch s' \<Rightarrow>
              context_inactive (channel m0) = User s' \<and> func (channel m0) = Some f \<and>
              val (channel m0) = not_filled \<and>
              trace m0 = [Entered arg, Swapped Child]
          | Close_and_join s' \<Rightarrow>
              context_inactive (channel m0) = In_close_and_join s' \<and>
              func (channel m0) = Some f \<and> val (channel m0) = NULL \<and>
              trace m0 = [Entered arg, Yielded Child NULL, Swapped Child]
          | Return \<Rightarrow>
              context_inactive (channel m0) = In_springboard \<and> func (channel m0) = None \<and>
              val (channel m0) = not_filled \<and>
              trace m0 = [Entered arg, Finished, Swapped Child])"
    by (auto split: call.splits)
  from P1 P2 P3 show ?thesis by blast
qed

theorem child_runs_to_first_suspension_witness:
  "coroutine_create_given_memory cotests X86_64 (56 :: 64 word) 128 (\<lambda>arg. Consume) (Addr 99)
       4096 32768 Close = Inr (36800, consumer_waits Close) \<and>
   active (consumer_waits Close) = Parent \<and> running (consumer_waits Close) = User Close \<and>
   cotests Consume = From (\<lambda>p. if p = NULL then Done else Consume) \<and>
   context_inactive (channel (consumer_waits Close)) =
     In_from (\<lambda>p. if p = NULL then Done else Consume) \<and>
   trace (consumer_waits Close) = [Entered (Addr 99), Swapped Child]"
proof -
  have c: "coroutine_create_given_memory cotests X86_64 (56 :: 64 word) 128 (\<lambda>arg. Consume)
             (Addr 99) 4096 32768 Close = Inr (36800, consumer_waits Close)"
    by (simp add: create_given_memory_eq ops_defs channel_offset_def consumer_waits_def)
  from child_runs_to_first_suspension [where memalign = None, OF disjI1 [OF c]] c
  show ?thesis by (simp add: consumer_waits_def)
qed

text \<open>
  C7. The entry field \<^verbatim>\<open>func\<close> of a channel becomes empty at most once over any sequence of
  operations; the step that empties it is the child's return into the springboard, which
  sets it to \<^verbatim>\<open>NULL\<close> and swaps back to the parent; once empty it stays empty, whatever
  is done with the channel afterwards.
\<close>

theorem entry_emptied_once:
  assumes "run code i m = Inr a" and "step code a = Inr a'"
  shows "(func (channel a) = None \<longrightarrow> func (channel a') = None) \<and>
         (func (channel a) \<noteq> None \<and> func (channel a') = None \<longrightarrow>
            active a = Child \<and> (\<exists>s. running a = User s \<and> code s = Return) \<and>
            a' = springboard_exit a \<and> trace a' = trace a @ [Finished, Swapped Child] \<and>
            active a' = Parent \<and> context_inactive (channel a') = In_springboard \<and>
            (\<forall>j b b'. run code j m = Inr b \<and> step code b = Inr b' \<and>
                func (channel b) \<noteq> None \<and> func (channel b') = None \<longrightarrow> j = i)) \<and>
         (\<forall>n b. run code n a' = Inr b \<and> func (channel a') = None \<longrightarrow> func (channel b) = None)"
proof (intro conjI impI allI)
  assume "func (channel a) = None"
  with assms(2) show "func (channel a') = None" by (rule step_func_None)
next
  assume e: "func (channel a) \<noteq> None \<and> func (channel a') = None"
  with assms(2) have s: "active a = Child \<and> (\<exists>s. running a = User s \<and> code s = Return) \<and>
         a' = springboard_exit a" by (intro step_empties) simp_all
  then show "active a = Child" "\<exists>s. running a = User s \<and> code s = Return"
     "a' = springboard_exit a" by simp_all
  from s show "trace a' = trace a @ [Finished, Swapped Child]" "active a' = Parent"
    "context_inactive (channel a') = In_springboard"
    by (simp_all add: springboard_exit_effect)
  fix j b b'
  assume b: "run code j m = Inr b \<and> step code b = Inr b' \<and>
                func (channel b) \<noteq> None \<and> func (channel b') = None"
  have "j \<le> i" using assms e b by (intro emptied_at_most_once [of code i m a a' j b]) simp_all
  moreover have "i \<le> j" using assms e b by (intro emptied_at_most_once [of code j m b b' i a]) simp_all
  ultimately show "j = i" by simp
next
  fix n b
  assume "run code n a' = Inr b \<and> func (channel a') = None"
  then show "func (channel b) = None" using run_func_None by blast
qed


theorem entry_emptied_once_witness:
  "run cotests 2 (consumer_waits Close) = Inr nil_received \<and>
   step cotests nil_received = Inr (springboard_exit nil_received) \<and>
   func (channel nil_received) \<noteq> None \<and>
   func (channel (springboard_exit nil_received)) = None \<and>
   trace (springboard_exit nil_received) = trace nil_received @ [Finished, Swapped Child] \<and>
   active (springboard_exit nil_received) = Parent"
proof -
  have r: "run cotests 2 (consumer_waits Close) = Inr nil_received"
    by (simp add: eval_nat_numeral ops_defs consumer_waits_def nil_received_def)
  have s: "step cotests nil_received = Inr (springboard_exit nil_received)"
    by (simp add: ops_defs nil_received_def)
  have e: "func (channel nil_received) \<noteq> None \<and>
           func (channel (springboard_exit nil_received)) = None"
    by (simp add: nil_received_def springboard_exit_def SWAP_CONTEXT_def)
  from entry_emptied_once [OF r s] r s e show ?thesis by simp
qed

text \<open>
  C8, as stated, fails twice. A block size of at least the size of the record is not
  enough: the child's stack starts at the record, so in an aligned block of exactly 56
  bytes for a record of 56 bytes the record lies at the base of the block and the first
  8 bytes the child pushes lie below it. And when the constructor does return, the
  springboard has taken \<open>arg\<close> out of the slot and the child has run: with the child \<open>Done\<close>
  (a block at 4096, aligned to 64, of 32768 bytes) the record returned has an empty entry
  and the sentinel in its slot.
\<close>

theorem given_memory_counterexample:
  "(56 :: 64 word) \<le> 56 \<and> unat (4096 :: 64 word) mod nat (STACK_ALIGNMENT X86_64) = 0 \<and>
   coroutine_create_given_memory cotests X86_64 (56 :: 64 word) 8 (\<lambda>arg. Done) (Addr 99)
       4096 56 Consume = Inl Stack_overflow \<and>
   (56 :: 64 word) \<le> 32768 \<and>
   coroutine_create_given_memory cotests X86_64 (56 :: 64 word) 128 (\<lambda>arg. Done) (Addr 99)
       4096 32768 Consume =
     Inr (36800, \<lparr>channel = \<lparr>context_inactive = In_springboard, func = None,
                              val = not_filled, free_after = NULL, free_func = None\<rparr>,
                  running = User Consume, active = Parent,
                  trace = [Entered (Addr 99), Finished, Swapped Child]\<rparr>) \<and>
   (None :: (ptr \<Rightarrow> pc) option) \<noteq> Some (\<lambda>arg. Done) \<and> not_filled \<noteq> Addr 99"
  by (simp add: create_given_memory_eq ops_defs channel_offset_def)

text \<open>
  C8, amended. For every block pointer aligned to the stack alignment and every block
  size that is at least the size of the record and leaves, below the record, room for the
  stack the child uses inside the call, the constructor returns (none of its faults
  occurs and it has no error path) a pointer to the record at offset \<open>blocksize - sz\<close>
  rounded down to a multiple of the stack alignment; the record lies inside the block, less
  than one alignment unit below the place a record at the very end would have, and its
  address, where the child's stack starts, is a multiple of the stack alignment. The record
  is initialised with the entry function, \<open>arg\<close> and null release hooks, and the child is
  entered with \<open>arg\<close>; when the call returns the hooks are still null, the slot holds the
  sentinel or what the child's first \<^verbatim>\<open>yield_to\<close> (or its \<^verbatim>\<open>close_and_join\<close>) placed, and
  the entry is the given function unless the child has already returned.
\<close>

theorem record_at_high_end:
  assumes "sz \<le> blocksize"
      and "unat block mod nat (STACK_ALIGNMENT a) = 0"
      and "stack \<le> unat (channel_offset a sz blocksize)"
  shows "\<exists>m0. coroutine_create_given_memory code a sz stack f arg block blocksize ret =
                 Inr (block + channel_offset a sz blocksize, m0) \<and>
               unat (channel_offset a sz blocksize) =
                 (unat (blocksize - sz) div nat (STACK_ALIGNMENT a)) * nat (STACK_ALIGNMENT a) \<and>
               unat (blocksize - sz) = unat blocksize - unat sz \<and>
               unat (channel_offset a sz blocksize) + unat sz \<le> unat blocksize \<and>
               unat blocksize - unat sz - unat (channel_offset a sz blocksize)
                 < nat (STACK_ALIGNMENT a) \<and>
               unat (block + channel_offset a sz blocksize) mod nat (STACK_ALIGNMENT a) = 0 \<and>
               func (channel_literal f arg) = Some f \<and> val (channel_literal f arg) = arg \<and>
               free_after (channel_literal f arg) = NULL \<and>
               free_func (channel_literal f arg) = None \<and>
               (\<exists>rest. trace m0 = Entered arg # rest) \<and>
               active m0 = Parent \<and> running m0 = User ret \<and>
               free_after (channel m0) = NULL \<and> free_func (channel m0) = None \<and>
               (val (channel m0) = not_filled \<or>
                (\<exists>s'. code (f arg) = Yield_to (val (channel m0)) s') \<or>
                (\<exists>s'. code (f arg) = Close_and_join s' \<and> val (channel m0) = NULL)) \<and>
               (func (channel m0) = Some f \<or>
                (func (channel m0) = None \<and> code (f arg) = Return))"
proof -
  have pos: "0 < nat (STACK_ALIGNMENT a)" by (cases a) simp_all
  have sub: "unat (blocksize - sz) = unat blocksize - unat sz"
    using assms(1) by (simp add: unat_sub)
  have off: "unat (channel_offset a sz blocksize) =
      (unat (blocksize - sz) div nat (STACK_ALIGNMENT a)) * nat (STACK_ALIGNMENT a)"
    by (rule channel_offset_round_down)
  have slack: "unat blocksize - unat sz - unat (channel_offset a sz blocksize)
                 < nat (STACK_ALIGNMENT a)"
  proof -
    have "unat (blocksize - sz) - unat (channel_offset a sz blocksize) =
        unat (blocksize - sz) mod nat (STACK_ALIGNMENT a)"
      unfolding off by (simp add: minus_div_mult_eq_mod)
    also have "\<dots> < nat (STACK_ALIGNMENT a)" using pos by simp
    finally show ?thesis by (simp only: sub)
  qed
  have inside: "unat (channel_offset a sz blocksize) + unat sz \<le> unat blocksize"
    by (rule channel_offset_inside [OF assms(1)])
  have al: "unat (block + channel_offset a sz blocksize) mod nat (STACK_ALIGNMENT a) = 0"
    by (rule record_aligned [OF assms(2)])
  have lit: "func (channel_literal f arg) = Some f \<and> val (channel_literal f arg) = arg \<and>
               free_after (channel_literal f arg) = NULL \<and>
               free_func (channel_literal f arg) = None"
    by (simp add: channel_literal_def)
  have ret: "\<exists>m0. coroutine_create_given_memory code a sz stack f arg block blocksize ret =
                 Inr (block + channel_offset a sz blocksize, m0) \<and>
               (\<exists>rest. trace m0 = Entered arg # rest) \<and>
               active m0 = Parent \<and> running m0 = User ret \<and>
               free_after (channel m0) = NULL \<and> free_func (channel m0) = None \<and>
               (val (channel m0) = not_filled \<or>
                (\<exists>s'. code (f arg) = Yield_to (val (channel m0)) s') \<or>
                (\<exists>s'. code (f arg) = Close_and_join s' \<and> val (channel m0) = NULL)) \<and>
               (func (channel m0) = Some f \<or>
                (func (channel m0) = None \<and> code (f arg) = Return))"
    unfolding create_given_memory_fits [OF inside al assms(3)] first_slice
    by (simp split: call.splits)
  from ret obtain m0 where
    r: "coroutine_create_given_memory code a sz stack f arg block blocksize ret =
          Inr (block + channel_offset a sz blocksize, m0)"
       "\<exists>rest. trace m0 = Entered arg # rest"
       "active m0 = Parent" "running m0 = User ret"
       "free_after (channel m0) = NULL" "free_func (channel m0) = None"
       "val (channel m0) = not_filled \<or>
          (\<exists>s'. code (f arg) = Yield_to (val (channel m0)) s') \<or>
          (\<exists>s'. code (f arg) = Close_and_join s' \<and> val (channel m0) = NULL)"
       "func (channel m0) = Some f \<or> (func (channel m0) = None \<and> code (f arg) = Return)"
    by blast
  show ?thesis
    by (rule exI [of _ m0]) (intro conjI r off sub slack inside al lit [THEN conjunct1]
      lit [THEN conjunct2, THEN conjunct1] lit [THEN conjunct2, THEN conjunct2, THEN conjunct1]
      lit [THEN conjunct2, THEN conjunct2, THEN conjunct2])
qed

theorem record_at_high_end_witness:
  "(56 :: 64 word) \<le> 32768 \<and> unat (4096 :: 64 word) mod nat (STACK_ALIGNMENT X86_64) = 0 \<and>
   channel_offset X86_64 (56 :: 64 word) 32768 = 32704 \<and> (128 :: nat) \<le> unat (32704 :: 64 word) \<and>
   coroutine_create_given_memory cotests X86_64 (56 :: 64 word) 128 (\<lambda>arg. Consume) (Addr 99)
       4096 32768 Close = Inr (36800, consumer_waits Close) \<and>
   unat (32704 :: 64 word) = (unat (32768 - 56 :: 64 word) div 64) * 64 \<and>
   unat (32704 :: 64 word) + unat (56 :: 64 word) \<le> unat (32768 :: 64 word) \<and>
   unat (4096 + 32704 :: 64 word) mod 64 = 0"
proof -
  have o: "channel_offset X86_64 (56 :: 64 word) 32768 = 32704"
    by (simp add: channel_offset_def)
  have h: "(56 :: 64 word) \<le> 32768" "unat (4096 :: 64 word) mod nat (STACK_ALIGNMENT X86_64) = 0"
    "(128 :: nat) \<le> unat (channel_offset X86_64 (56 :: 64 word) 32768)"
    by (simp_all add: o)
  have c: "coroutine_create_given_memory cotests X86_64 (56 :: 64 word) 128 (\<lambda>arg. Consume)
             (Addr 99) 4096 32768 Close = Inr (36800, consumer_waits Close)"
    by (simp add: create_given_memory_eq ops_defs channel_offset_def consumer_waits_def)
  from record_at_high_end [OF h, where code = cotests and f = "\<lambda>arg. Consume"
      and arg = "Addr 99" and ret = Close]
  have "unat (channel_offset X86_64 (56 :: 64 word) 32768) =
          (unat (32768 - 56 :: 64 word) div nat (STACK_ALIGNMENT X86_64)) *
            nat (STACK_ALIGNMENT X86_64) \<and>
        unat (channel_offset X86_64 (56 :: 64 word) 32768) + unat (56 :: 64 word)
          \<le> unat (32768 :: 64 word) \<and>
        unat (4096 + channel_offset X86_64 (56 :: 64 word) 32768) mod
          nat (STACK_ALIGNMENT X86_64) = 0"
    by blast
  with h o c show ?thesis by simp
qed

text \<open>
  C9, as stated, fails. The implementation on kernel threads ignores the block given to
  \<^verbatim>\<open>coroutine_create_given_memory\<close>, allocates its record with \<^verbatim>\<open>malloc\<close>, and gives it to
  \<^verbatim>\<open>free\<close> in \<^verbatim>\<open>from\<close> and \<^verbatim>\<open>close_and_join\<close> once the child has returned. The child
  consumes until it gets \<^verbatim>\<open>NULL\<close>; the parent calls \<^verbatim>\<open>close_and_join\<close> and then \<^verbatim>\<open>from\<close>.
  On a channel made by \<^verbatim>\<open>coroutine_create_given_memory\<close> of the first implementation, which
  is never released, that \<^verbatim>\<open>from\<close> returns \<^verbatim>\<open>NULL\<close>; on threads \<^verbatim>\<open>close_and_join\<close> has
  freed the record, and the \<^verbatim>\<open>from\<close> reads it after that.
\<close>

theorem threads_counterexample:
  "observed (run_created cotests 5
     (coroutine_create_given_memory cotests X86_64 (56 :: 64 word) 128 (\<lambda>arg. Consume) (Addr 99)
        4096 32768 Close_then_consume)) =
     [Entered (Addr 99), Swapped Child, Yielded Parent NULL, Swapped Parent, Got Child NULL,
      Finished, Swapped Child, Got Parent NULL] \<and>
   observed_pt (run_created_pt cotests 4
     (coroutine_create_given_memory_pt cotests (Some (8192 :: 64 word)) (\<lambda>arg. Consume) (Addr 99)
        4096 32768 Close_then_consume)) =
     [Entered (Addr 99), Swapped Child, Yielded Parent NULL, Swapped Parent, Got Child NULL,
      Finished, Swapped Child, Released (Addr 8192)] \<and>
   run_created_pt cotests 5
     (coroutine_create_given_memory_pt cotests (Some (8192 :: 64 word)) (\<lambda>arg. Consume) (Addr 99)
        4096 32768 Close_then_consume) = Inl Use_after_free"
proof -
  have n: "coroutine_create_given_memory cotests X86_64 (56 :: 64 word) 128 (\<lambda>arg. Consume)
             (Addr 99) 4096 32768 Close_then_consume = Inr (36800, consumer_waits Close_then_consume)"
    by (simp add: create_given_memory_eq ops_defs channel_offset_def consumer_waits_def)
  have "observed (run cotests 5 (consumer_waits Close_then_consume)) =
     [Entered (Addr 99), Swapped Child, Yielded Parent NULL, Swapped Parent, Got Child NULL,
      Finished, Swapped Child, Got Parent NULL]"
    by (simp add: run_numeral ops_defs Let_def consumer_waits_def observed_def)
  with n have A: "observed (run_created cotests 5
     (coroutine_create_given_memory cotests X86_64 (56 :: 64 word) 128 (\<lambda>arg. Consume) (Addr 99)
        4096 32768 Close_then_consume)) =
     [Entered (Addr 99), Swapped Child, Yielded Parent NULL, Swapped Parent, Got Child NULL,
      Finished, Swapped Child, Got Parent NULL]"
    by (simp add: run_created_def)
  have p: "coroutine_create_given_memory_pt cotests (Some (8192 :: 64 word)) (\<lambda>arg. Consume)
             (Addr 99) (4096 :: 64 word) 32768 Close_then_consume =
           Inr (8192, \<lparr>channel_pt = \<lparr>thread = In_from (\<lambda>p. if p = NULL then Done else Consume),
                                       in_child = False, func_pt = Some (\<lambda>arg. Consume),
                                       value_pt = not_filled\<rparr>,
                        parent_thread = User Close_then_consume, malloced = Addr 8192,
                        trace_pt = [Entered (Addr 99), Swapped Child]\<rparr>)"
    by (simp add: coroutine_create_given_memory_pt_def coroutine_create_pt_def springboard_pt_def
          pt_defs ptr_of_def)
  have B: "observed_pt (run_created_pt cotests 4
     (coroutine_create_given_memory_pt cotests (Some (8192 :: 64 word)) (\<lambda>arg. Consume) (Addr 99)
        4096 32768 Close_then_consume)) =
     [Entered (Addr 99), Swapped Child, Yielded Parent NULL, Swapped Parent, Got Child NULL,
      Finished, Swapped Child, Released (Addr 8192)]"
    unfolding p by (simp add: run_created_pt_def run_pt_numeral pt_defs Let_def observed_pt_def)
  have C: "run_created_pt cotests 5
     (coroutine_create_given_memory_pt cotests (Some (8192 :: 64 word)) (\<lambda>arg. Consume) (Addr 99)
        4096 32768 Close_then_consume) = Inl Use_after_free"
    unfolding p by (simp add: run_created_pt_def run_pt_numeral pt_defs Let_def)
  from A B C show ?thesis by blast
qed

text \<open>
  C9, amended. For every program, a channel of the implementation on kernel threads (made by
  either constructor: they are the same there) goes step by step through the states of a
  channel made by \<^verbatim>\<open>coroutine_create\<close> of the first implementation: the same party runs at
  the same place, the entry and the slot hold the same, and the same events are observed in
  the same order (the entry function entered with the same argument, the same pointers
  stored by \<^verbatim>\<open>yield_to\<close> and returned by \<^verbatim>\<open>from\<close>, the same hand-offs, the same end of the
  child), the record being given to \<^verbatim>\<open>free\<close> at the step at which the first implementation
  releases its block; and a run halts at the same step for the same reason, a thread
  waiting for ever where the first implementation switches into the child that has ended.
  Against a channel made by \<^verbatim>\<open>coroutine_create_given_memory\<close> of the first implementation
  the same holds, the calls of \<^verbatim>\<open>free\<close> left out, up to the first operation that reads the
  record after it was freed; that comes only after \<^verbatim>\<open>from\<close> or \<^verbatim>\<open>close_and_join\<close> has
  given the record of a channel with an empty entry to \<^verbatim>\<open>free\<close>.
\<close>

theorem threads_indistinguishable_until_freed:
  "(coroutine_create code a sz stack memalign f arg ret = Inr (chan, m0) \<longrightarrow>
      (\<exists>block' pm0. memalign = Some block' \<and>
          coroutine_create_pt code (Some chan') f arg ret = Inr (chan', pm0) \<and>
          coroutine_create_given_memory_pt code (Some chan') f arg block blocksize ret =
            Inr (chan', pm0) \<and>
          (\<forall>n. run code n m0 = as_result (ptr_of block') (run_pt code n pm0)))) \<and>
   (coroutine_create_given_memory code a sz stack f arg block blocksize ret = Inr (chan, m0) \<longrightarrow>
      (\<exists>pm0. coroutine_create_given_memory_pt code (Some chan') f arg block blocksize ret =
               Inr (chan', pm0) \<and>
          (\<forall>n. run code n m0 = as_given_result (run_pt code n pm0) \<or>
               run_pt code n pm0 = Inl Use_after_free \<and>
               (\<exists>k pm. k < n \<and> run_pt code k pm0 = Inr pm \<and> released (trace_pt pm) \<noteq> [] \<and>
                       func_pt (channel_pt pm) = None))))"
proof (intro conjI impI)
  assume c: "coroutine_create code a sz stack memalign f arg ret = Inr (chan, m0)"
  from create_as_machine [OF c, of chan'] obtain block' pm0 where
    m: "memalign = Some block'"
    and p: "coroutine_create_pt code (Some chan') f arg ret = Inr (chan', pm0)"
    and e: "as_machine (ptr_of block') pm0 = m0" and k: "consistent m0"
    by blast
  from k e have "consistent (as_machine (ptr_of block') pm0)" by simp
  then have "\<forall>n. run code n (as_machine (ptr_of block') pm0) =
      as_result (ptr_of block') (run_pt code n pm0)"
    by (simp add: run_as_machine)
  with e have r: "\<forall>n. run code n m0 = as_result (ptr_of block') (run_pt code n pm0)" by simp
  from p have "coroutine_create_given_memory_pt code (Some chan') f arg block blocksize ret =
      Inr (chan', pm0)"
    by (simp add: coroutine_create_given_memory_pt_def)
  with m p r show "\<exists>block' pm0. memalign = Some block' \<and>
          coroutine_create_pt code (Some chan') f arg ret = Inr (chan', pm0) \<and>
          coroutine_create_given_memory_pt code (Some chan') f arg block blocksize ret =
            Inr (chan', pm0) \<and>
          (\<forall>n. run code n m0 = as_result (ptr_of block') (run_pt code n pm0))"
    by blast
next
  assume c: "coroutine_create_given_memory code a sz stack f arg block blocksize ret =
      Inr (chan, m0)"
  from create_as_given_machine [OF c, of chan'] obtain pm0 where
    p: "coroutine_create_pt code (Some chan') f arg ret = Inr (chan', pm0)"
    and e: "as_given_machine pm0 = m0" and k: "consistent m0"
    by blast
  have f0: "freed_only_dead pm0"
  proof -
    from p obtain m1 where
      "step_pt code \<lparr>channel_pt = \<lparr>thread = User (f arg), in_child = True, func_pt = Some f,
                       value_pt = not_filled\<rparr>,
        parent_thread = User ret, malloced = ptr_of chan', trace_pt = [Entered arg]\<rparr> = Inr pm0"
      by (auto simp: coroutine_create_pt_def springboard_pt_start split: sum.splits)
    then show ?thesis by (rule step_pt_freed) (simp add: freed_only_dead_def)
  qed
  have r: "\<forall>n. run code n m0 = as_given_result (run_pt code n pm0) \<or>
               run_pt code n pm0 = Inl Use_after_free \<and>
               (\<exists>k pm. k < n \<and> run_pt code k pm0 = Inr pm \<and> released (trace_pt pm) \<noteq> [] \<and>
                       func_pt (channel_pt pm) = None)"
  proof
    fix n
    from k e have "consistent (as_given_machine pm0)" by simp
    from run_as_given_machine [OF this, of code n] e
    have d: "run_pt code n pm0 = Inl Use_after_free \<or>
        run code n m0 = as_given_result (run_pt code n pm0)"
      by simp
    show "run code n m0 = as_given_result (run_pt code n pm0) \<or>
               run_pt code n pm0 = Inl Use_after_free \<and>
               (\<exists>k pm. k < n \<and> run_pt code k pm0 = Inr pm \<and> released (trace_pt pm) \<noteq> [] \<and>
                       func_pt (channel_pt pm) = None)"
    proof (cases "run_pt code n pm0 = Inl Use_after_free")
      case True
      from run_pt_fault [OF True f0] True show ?thesis by blast
    next
      case False
      with d show ?thesis by simp
    qed
  qed
  from p have "coroutine_create_given_memory_pt code (Some chan') f arg block blocksize ret =
      Inr (chan', pm0)"
    by (simp add: coroutine_create_given_memory_pt_def)
  with r show "\<exists>pm0. coroutine_create_given_memory_pt code (Some chan') f arg block blocksize ret =
               Inr (chan', pm0) \<and>
          (\<forall>n. run code n m0 = as_given_result (run_pt code n pm0) \<or>
               run_pt code n pm0 = Inl Use_after_free \<and>
               (\<exists>k pm. k < n \<and> run_pt code k pm0 = Inr pm \<and> released (trace_pt pm) \<noteq> [] \<and>
                       func_pt (channel_pt pm) = None))"
    by blast
qed


theorem threads_indistinguishable_until_freed_witness:
  "coroutine_create cotests X86_64 (56 :: 64 word) 128 (Some 4096) (\<lambda>arg. Consume) (Addr 99) Close =
     Inr (528320, heap_consumer_waits) \<and>
   (\<exists>pm0. coroutine_create_pt cotests (Some (8192 :: 64 word)) (\<lambda>arg. Consume) (Addr 99) Close =
            Inr (8192, pm0) \<and>
          (\<forall>n. run cotests n heap_consumer_waits = as_result (Addr 4096) (run_pt cotests n pm0))) \<and>
   coroutine_create_given_memory cotests X86_64 (56 :: 64 word) 128 (\<lambda>arg. Consume) (Addr 99)
       4096 32768 Close_then_consume = Inr (36800, consumer_waits Close_then_consume) \<and>
   (\<exists>pm0. coroutine_create_given_memory_pt cotests (Some (8192 :: 64 word)) (\<lambda>arg. Consume)
            (Addr 99) (4096 :: 64 word) 32768 Close_then_consume = Inr (8192, pm0) \<and>
          run cotests 4 (consumer_waits Close_then_consume) =
            as_given_result (run_pt cotests 4 pm0) \<and>
          run_pt cotests 5 pm0 = Inl Use_after_free \<and>
          (\<exists>k pm. k < 5 \<and> run_pt cotests k pm0 = Inr pm \<and> released (trace_pt pm) \<noteq> [] \<and>
                  func_pt (channel_pt pm) = None))"
proof -
  let ?waits = "\<lparr>channel_pt = \<lparr>thread = In_from (\<lambda>p. if p = NULL then Done else Consume),
                                  in_child = False, func_pt = Some (\<lambda>arg. Consume),
                                  value_pt = not_filled\<rparr>,
                   parent_thread = User Close_then_consume, malloced = Addr 8192,
                   trace_pt = [Entered (Addr 99), Swapped Child]\<rparr>"
  have c: "coroutine_create cotests X86_64 (56 :: 64 word) 128 (Some 4096) (\<lambda>arg. Consume)
             (Addr 99) Close = Inr (528320, heap_consumer_waits)"
    by (simp add: coroutine_create_def create_given_memory_eq ops_defs channel_offset_def
          heap_consumer_waits_def ptr_of_def)
  have g: "coroutine_create_given_memory cotests X86_64 (56 :: 64 word) 128 (\<lambda>arg. Consume)
             (Addr 99) 4096 32768 Close_then_consume = Inr (36800, consumer_waits Close_then_consume)"
    by (simp add: create_given_memory_eq ops_defs channel_offset_def consumer_waits_def)
  have p: "coroutine_create_given_memory_pt cotests (Some (8192 :: 64 word)) (\<lambda>arg. Consume)
             (Addr 99) (4096 :: 64 word) 32768 Close_then_consume = Inr (8192, ?waits)"
    by (simp add: coroutine_create_given_memory_pt_def coroutine_create_pt_def springboard_pt_def
          pt_defs ptr_of_def)
  have n5: "run cotests 5 (consumer_waits Close_then_consume) \<noteq> Inl Use_after_free"
    by (simp add: run_numeral ops_defs Let_def consumer_waits_def)
  have p4: "run_pt cotests 4 ?waits \<noteq> Inl Use_after_free"
    by (simp add: run_pt_numeral pt_defs Let_def)
  have p5: "run_pt cotests 5 ?waits = Inl Use_after_free"
    by (simp add: run_pt_numeral pt_defs Let_def)
  from threads_indistinguishable_until_freed [where code = cotests and a = X86_64
      and sz = "56 :: 64 word" and stack = 128 and memalign = "Some 4096"
      and f = "\<lambda>arg. Consume" and arg = "Addr 99" and ret = Close
      and chan' = "8192 :: 64 word" and block = 0
      and blocksize = 0, THEN conjunct1, THEN mp, OF c]
  have A: "\<exists>pm0. coroutine_create_pt cotests (Some (8192 :: 64 word)) (\<lambda>arg. Consume) (Addr 99)
              Close = Inr (8192, pm0) \<and>
          (\<forall>n. run cotests n heap_consumer_waits = as_result (Addr 4096) (run_pt cotests n pm0))"
    by (auto simp: ptr_of_def)
  from threads_indistinguishable_until_freed [where code = cotests and a = X86_64
      and sz = "56 :: 64 word" and stack = 128 and memalign = None
      and f = "\<lambda>arg. Consume" and arg = "Addr 99" and ret = Close_then_consume
      and chan' = "8192 :: 64 word"
      and block = 4096 and blocksize = 32768, THEN conjunct2, THEN mp, OF g]
  have r: "\<forall>n. run cotests n (consumer_waits Close_then_consume) =
               as_given_result (run_pt cotests n ?waits) \<or>
             run_pt cotests n ?waits = Inl Use_after_free \<and>
             (\<exists>k pm. k < n \<and> run_pt cotests k ?waits = Inr pm \<and> released (trace_pt pm) \<noteq> [] \<and>
                     func_pt (channel_pt pm) = None)"
    unfolding p by simp
  from r [rule_format, of 4] p4
  have r4: "run cotests 4 (consumer_waits Close_then_consume) =
      as_given_result (run_pt cotests 4 ?waits)"
    by blast
  from r [rule_format, of 5] n5 p5
  have r5: "\<exists>k pm. k < 5 \<and> run_pt cotests k ?waits = Inr pm \<and> released (trace_pt pm) \<noteq> [] \<and>
      func_pt (channel_pt pm) = None"
    by (simp add: as_given_result_def)
  from p r4 p5 r5
  have B: "\<exists>pm0. coroutine_create_given_memory_pt cotests (Some (8192 :: 64 word)) (\<lambda>arg. Consume)
            (Addr 99) (4096 :: 64 word) 32768 Close_then_consume = Inr (8192, pm0) \<and>
          run cotests 4 (consumer_waits Close_then_consume) =
            as_given_result (run_pt cotests 4 pm0) \<and>
          run_pt cotests 5 pm0 = Inl Use_after_free \<and>
          (\<exists>k pm. k < 5 \<and> run_pt cotests k pm0 = Inr pm \<and> released (trace_pt pm) \<noteq> [] \<and>
                  func_pt (channel_pt pm) = None)"
    by blast
  from c A g B show ?thesis by blast
qed

text \<open>
  C10. A channel created by \<^verbatim>\<open>coroutine_create_given_memory\<close> has \<^verbatim>\<open>free_after\<close> and
  \<^verbatim>\<open>free_func\<close> null when the call returns, no operation on the channel changes them, and
  no release function is ever called: the trace of every run holds no \<open>Released\<close> event.
\<close>

theorem given_memory_never_released:
  assumes "coroutine_create_given_memory code a sz stack f arg block blocksize ret = Inr (chan, m0)"
      and "run code n m0 = Inr m"
  shows "free_func (channel m0) = None \<and> free_after (channel m0) = NULL \<and>
         free_func (channel m) = None \<and> free_after (channel m) = NULL \<and>
         released (trace m) = []"
  using created_facts [OF assms(1)] run_hooks [OF assms(2)] by simp

theorem given_memory_never_released_witness:
  "coroutine_create_given_memory cotests X86_64 (56 :: 64 word) 128 (\<lambda>arg. Consume) (Addr 99)
       4096 32768 Close = Inr (36800, consumer_waits Close) \<and>
   run cotests 2 (consumer_waits Close) = Inr nil_received \<and>
   free_func (channel nil_received) = None \<and> free_after (channel nil_received) = NULL \<and>
   released (trace nil_received) = []"
proof -
  have c: "coroutine_create_given_memory cotests X86_64 (56 :: 64 word) 128 (\<lambda>arg. Consume)
             (Addr 99) 4096 32768 Close = Inr (36800, consumer_waits Close)"
    by (simp add: create_given_memory_eq ops_defs channel_offset_def consumer_waits_def)
  have r: "run cotests 2 (consumer_waits Close) = Inr nil_received"
    by (simp add: eval_nat_numeral ops_defs consumer_waits_def nil_received_def)
  from given_memory_never_released [OF c r] c r show ?thesis by simp
qed

end
